theory Spec2Isabelle
  imports Complex_Main
begin

section \<open>Floating-point values\<close>

text \<open>
  The pricer of \<^verbatim>\<open>projects/p01_option_pricer.py\<close> computes with Python floats and
  numpy \<^verbatim>\<open>float64\<close> scalars, both IEEE 754 doubles. A value is a finite number, negative
  zero, one of the two infinities, or NaN; \<open>Fin 0\<close> is the positive zero.

  The range of the doubles is part of the model, the rounding of the mantissa is not: a
  finite result is the real number itself when a double lies next to it, an infinity
  when it rounds beyond the largest double (from \<open>2\<^sup>1\<^sup>0\<^sup>2\<^sup>4 - 2\<^sup>9\<^sup>7\<^sup>0\<close> on), and a zero when
  it rounds to zero (up to \<open>2\<^sup>-\<^sup>1\<^sup>0\<^sup>7\<^sup>5\<close>, half the smallest subnormal).
\<close>

datatype float64 = Fin real | NegZero | PInf | NInf | NaN

fun is_nan :: "float64 \<Rightarrow> bool" where
  "is_nan NaN = True"
| "is_nan _ = False"

fun is_inf :: "float64 \<Rightarrow> bool" where
  "is_inf PInf = True"
| "is_inf NInf = True"
| "is_inf _ = False"

fun is_zero :: "float64 \<Rightarrow> bool" where
  "is_zero (Fin x) = (x = 0)"
| "is_zero NegZero = True"
| "is_zero _ = False"

fun signbit :: "float64 \<Rightarrow> bool" where
  "signbit (Fin x) = (x < 0)"
| "signbit NegZero = True"
| "signbit NInf = True"
| "signbit _ = False"

text \<open>The number a finite value stands for (0 for the others, which no caller reads).\<close>

fun val :: "float64 \<Rightarrow> real" where
  "val (Fin x) = x"
| "val _ = 0"

definition zero_of :: "bool \<Rightarrow> float64" where
  "zero_of neg = (if neg then NegZero else Fin 0)"

definition inf_of :: "bool \<Rightarrow> float64" where
  "inf_of neg = (if neg then NInf else PInf)"

subsection \<open>The range of the doubles\<close>

definition overflow_threshold :: real where
  "overflow_threshold = 2 ^ 1024 - 2 ^ 970"

definition underflow_threshold :: real where
  "underflow_threshold = 1 / 2 ^ 1075"

text \<open>The double that an exact result \<open>x\<close> of a product, a quotient or a function becomes.\<close>

definition to_float64 :: "real \<Rightarrow> float64" where
  "to_float64 x =
     (if overflow_threshold \<le> \<bar>x\<bar> then inf_of (x < 0)
      else if \<bar>x\<bar> \<le> underflow_threshold then zero_of (x < 0)
      else Fin x)"

text \<open>
  A sum of two doubles overflows as a product does, but it does not underflow: it is
  zero only when it is exactly zero.
\<close>

definition sum_to_float64 :: "real \<Rightarrow> float64" where
  "sum_to_float64 x = (if overflow_threshold \<le> \<bar>x\<bar> then inf_of (x < 0) else Fin x)"

subsection \<open>IEEE 754 arithmetic, as Python and numpy both do it\<close>

fun fneg :: "float64 \<Rightarrow> float64" where
  "fneg (Fin x) = (if x = 0 then NegZero else Fin (- x))"
| "fneg NegZero = Fin 0"
| "fneg PInf = NInf"
| "fneg NInf = PInf"
| "fneg NaN = NaN"

fun fadd :: "float64 \<Rightarrow> float64 \<Rightarrow> float64" where
  "fadd NaN _ = NaN"
| "fadd _ NaN = NaN"
| "fadd PInf NInf = NaN"
| "fadd NInf PInf = NaN"
| "fadd PInf _ = PInf"
| "fadd _ PInf = PInf"
| "fadd NInf _ = NInf"
| "fadd _ NInf = NInf"
| "fadd NegZero NegZero = NegZero"
| "fadd NegZero (Fin y) = Fin y"
| "fadd (Fin x) NegZero = Fin x"
| "fadd (Fin x) (Fin y) = sum_to_float64 (x + y)"

definition fsub :: "float64 \<Rightarrow> float64 \<Rightarrow> float64" where
  "fsub a b = fadd a (fneg b)"

text \<open>
  Products and quotients overflow to an infinity and underflow to a zero silently, in
  Python as in numpy (numpy adds a RuntimeWarning).
\<close>

definition fmul :: "float64 \<Rightarrow> float64 \<Rightarrow> float64" where
  "fmul a b =
     (if is_nan a \<or> is_nan b then NaN
      else if (is_inf a \<and> is_zero b) \<or> (is_zero a \<and> is_inf b) then NaN
      else if is_inf a \<or> is_inf b then inf_of (signbit a \<noteq> signbit b)
      else if is_zero a \<or> is_zero b then zero_of (signbit a \<noteq> signbit b)
      else to_float64 (val a * val b))"

text \<open>
  Division of numpy scalars: a zero divisor gives an infinity or NaN (with a
  RuntimeWarning), never an exception.
\<close>

definition fdiv :: "float64 \<Rightarrow> float64 \<Rightarrow> float64" where
  "fdiv a b =
     (if is_nan a \<or> is_nan b then NaN
      else if (is_inf a \<and> is_inf b) \<or> (is_zero a \<and> is_zero b) then NaN
      else if is_inf a \<or> is_zero b then inf_of (signbit a \<noteq> signbit b)
      else if is_zero a \<or> is_inf b then zero_of (signbit a \<noteq> signbit b)
      else to_float64 (val a / val b))"

text \<open>Comparison \<^verbatim>\<open>a < b\<close>: false as soon as one side is NaN.\<close>

definition flt :: "float64 \<Rightarrow> float64 \<Rightarrow> bool" where
  "flt a b =
     (\<not> is_nan a \<and> \<not> is_nan b \<and> a \<noteq> PInf \<and> b \<noteq> NInf \<and>
      (a = NInf \<or> b = PInf \<or> val a < val b))"

subsection \<open>Python's own operators\<close>

datatype error = ZeroDivisionError | OverflowError

text \<open>
  \<^verbatim>\<open>a / b\<close> on Python floats raises on a zero divisor of either sign, and only then:
  a quotient too large is an infinity.
\<close>

definition py_truediv :: "float64 \<Rightarrow> float64 \<Rightarrow> error + float64" where
  "py_truediv a b = (if is_zero b then Inl ZeroDivisionError else Inr (fdiv a b))"

text \<open>
  \<^verbatim>\<open>a ** 2\<close> on a Python float raises OverflowError when the square of a finite \<open>a\<close>
  overflows; a square that underflows is \<open>0.0\<close>.
\<close>

definition py_square :: "float64 \<Rightarrow> error + float64" where
  "py_square a =
     (case a of
        Fin x \<Rightarrow> if overflow_threshold \<le> x * x then Inl OverflowError
                 else Inr (to_float64 (x * x))
      | NegZero \<Rightarrow> Inr (Fin 0)
      | PInf \<Rightarrow> Inr PInf
      | NInf \<Rightarrow> Inr PInf
      | NaN \<Rightarrow> Inr NaN)"

subsection \<open>The numpy and scipy functions the pricer calls\<close>

fun np_log :: "float64 \<Rightarrow> float64" where
  "np_log (Fin x) = (if x = 0 then NInf else if x < 0 then NaN else Fin (ln x))"
| "np_log NegZero = NInf"
| "np_log PInf = PInf"
| "np_log NInf = NaN"
| "np_log NaN = NaN"

fun np_sqrt :: "float64 \<Rightarrow> float64" where
  "np_sqrt (Fin x) = (if x < 0 then NaN else Fin (sqrt x))"
| "np_sqrt NegZero = NegZero"
| "np_sqrt PInf = PInf"
| "np_sqrt NInf = NaN"
| "np_sqrt NaN = NaN"

fun np_exp :: "float64 \<Rightarrow> float64" where
  "np_exp (Fin x) = to_float64 (exp x)"
| "np_exp NegZero = Fin 1"
| "np_exp PInf = PInf"
| "np_exp NInf = Fin 0"
| "np_exp NaN = NaN"

text \<open>
  \<^verbatim>\<open>np.maximum(a, b)\<close>: NaN if either is, else \<open>a\<close> when \<open>a > b\<close>, else \<open>b\<close> (so the
  second operand on a tie of the two zeros).
\<close>

definition np_maximum :: "float64 \<Rightarrow> float64 \<Rightarrow> float64" where
  "np_maximum a b = (if is_nan a then a else if is_nan b then b else if flt b a then a else b)"

text \<open>
  \<^verbatim>\<open>scipy.stats.norm.cdf\<close> is the standard normal distribution function
  \<open>\<Phi> x = 1/2 + (\<integral>\<^sub>0\<^sup>x exp (- t\<^sup>2 / 2) dt) / sqrt (2 \<pi>)\<close>. The integral has no closed form; it is
  given here by its power series \<open>x \<Sum>\<^sub>k (- 1/2)\<^sup>k (x\<^sup>2)\<^sup>k / (k! (2 k + 1))\<close>. That this is the
  distribution function of the density \<open>std_normal_pdf\<close> below is lemma
  \<open>std_normal_cdf_deriv\<close>, with \<open>std_normal_cdf 0 = 1/2\<close>.
\<close>

definition gauss_coeff :: "nat \<Rightarrow> real" where
  "gauss_coeff k = (- 1 / 2) ^ k * inverse (fact k) * inverse (2 * real k + 1)"

definition gauss_series :: "real \<Rightarrow> real" where
  "gauss_series y = (\<Sum>k. gauss_coeff k * y ^ k)"

definition gauss_int :: "real \<Rightarrow> real" where
  "gauss_int x = x * gauss_series (x\<^sup>2)"

definition std_normal_cdf :: "real \<Rightarrow> real" where
  "std_normal_cdf x = 1 / 2 + gauss_int x / sqrt (2 * pi)"

fun norm_cdf :: "float64 \<Rightarrow> float64" where
  "norm_cdf (Fin x) = to_float64 (std_normal_cdf x)"
| "norm_cdf NegZero = to_float64 (std_normal_cdf 0)"
| "norm_cdf PInf = Fin 1"
| "norm_cdf NInf = Fin 0"
| "norm_cdf NaN = NaN"

text \<open>\<^verbatim>\<open>scipy.stats.norm.pdf\<close>: the standard normal density \<open>exp (- x\<^sup>2 / 2) / sqrt (2 \<pi>)\<close>.\<close>

definition std_normal_pdf :: "real \<Rightarrow> real" where
  "std_normal_pdf x = exp (- (x\<^sup>2) / 2) / sqrt (2 * pi)"

fun norm_pdf :: "float64 \<Rightarrow> float64" where
  "norm_pdf (Fin x) = to_float64 (std_normal_pdf x)"
| "norm_pdf NegZero = to_float64 (std_normal_pdf 0)"
| "norm_pdf PInf = Fin 0"
| "norm_pdf NInf = Fin 0"
| "norm_pdf NaN = NaN"

text \<open>
  \<^verbatim>\<open>np.linspace(start, stop, num)\<close> with the default \<^verbatim>\<open>endpoint=True\<close>: \<open>num\<close> samples
  \<open>start + i * step\<close> with \<open>step = (stop - start) / (num - 1)\<close>, the last one then set
  to \<open>stop\<close> itself. When the step is zero numpy computes \<open>(i / (num - 1)) * (stop - start)\<close>
  instead of \<open>i * step\<close>.
\<close>

definition np_linspace :: "float64 \<Rightarrow> float64 \<Rightarrow> nat \<Rightarrow> float64 list" where
  "np_linspace start stop num =
     (let n1 = num - 1;
          delta = fsub stop start;
          step = fdiv delta (Fin (real n1));
          scaled = (\<lambda>i. if 0 < n1
                         then (if is_zero step then fmul (fdiv (Fin (real i)) (Fin (real n1))) delta
                               else fmul (Fin (real i)) step)
                         else fmul (Fin (real i)) delta);
          y = map (\<lambda>i. fadd (scaled i) start) [0..<num]
      in if 1 < num then y[num - 1 := stop] else y)"

section \<open>The pricer\<close>

text \<open>
  \<^verbatim>\<open>black_scholes(S, K, T, r, sigma, option_type)\<close> returns \<open>(price, d1, d2)\<close>. Two
  operations of its body can raise: the Python division \<^verbatim>\<open>S / K\<close>, evaluated first, and
  the Python power \<^verbatim>\<open>sigma ** 2\<close>, evaluated next. Everything else is Python float
  addition and multiplication or numpy and scipy arithmetic, which return an infinity or
  NaN instead.
\<close>

definition black_scholes ::
  "float64 \<Rightarrow> float64 \<Rightarrow> float64 \<Rightarrow> float64 \<Rightarrow> float64 \<Rightarrow> string
     \<Rightarrow> error + (float64 \<times> float64 \<times> float64)" where
  "black_scholes S K T r sigma option_type =
     (case py_truediv S K of
        Inl e \<Rightarrow> Inl e
      | Inr q \<Rightarrow>
     (case py_square sigma of
        Inl e \<Rightarrow> Inl e
      | Inr sq \<Rightarrow>
          (let d1 = fdiv (fadd (np_log q) (fmul (fadd r (fmul (Fin 0.5) sq)) T))
                         (fmul sigma (np_sqrt T));
               d2 = fsub d1 (fmul sigma (np_sqrt T));
               price =
                 (if option_type = ''call''
                  then fsub (fmul S (norm_cdf d1))
                            (fmul (fmul K (np_exp (fmul (fneg r) T))) (norm_cdf d2))
                  else fsub (fmul (fmul K (np_exp (fmul (fneg r) T))) (norm_cdf (fneg d2)))
                            (fmul S (norm_cdf (fneg d1))))
           in Inr (price, d1, d2))))"

section \<open>The Greeks\<close>

text \<open>
  \<^verbatim>\<open>calculate_greeks(S, K, T, r, sigma, option_type)\<close> returns \<open>(delta, gamma, theta)\<close>,
  after the same first line as the pricer's. Delta tests \<^verbatim>\<open>option_type == "call"\<close> and
  takes the put branch otherwise; Theta adds the put term under the test
  \<^verbatim>\<open>option_type == "put"\<close>.
\<close>

definition calculate_greeks ::
  "float64 \<Rightarrow> float64 \<Rightarrow> float64 \<Rightarrow> float64 \<Rightarrow> float64 \<Rightarrow> string
     \<Rightarrow> error + (float64 \<times> float64 \<times> float64)" where
  "calculate_greeks S K T r sigma option_type =
     (case py_truediv S K of
        Inl e \<Rightarrow> Inl e
      | Inr q \<Rightarrow>
     (case py_square sigma of
        Inl e \<Rightarrow> Inl e
      | Inr sq \<Rightarrow>
          (let d1 = fdiv (fadd (np_log q) (fmul (fadd r (fmul (Fin 0.5) sq)) T))
                         (fmul sigma (np_sqrt T));
               d2 = fsub d1 (fmul sigma (np_sqrt T));
               delta = (if option_type = ''call'' then norm_cdf d1
                        else fsub (norm_cdf d1) (Fin 1));
               gamma = fdiv (norm_pdf d1) (fmul (fmul S sigma) (np_sqrt T));
               theta = fsub (fdiv (fneg (fmul (fmul S (norm_pdf d1)) sigma))
                                  (fmul (Fin 2) (np_sqrt T)))
                            (fmul (fmul (fmul r K) (np_exp (fmul (fneg r) T))) (norm_cdf d2));
               theta' = (if option_type = ''put''
                         then fadd theta (fmul (fmul r K) (np_exp (fmul (fneg r) T)))
                         else theta)
           in Inr (delta, gamma, theta'))))"

section \<open>The payoff curve\<close>

text \<open>
  The payoff diagram of \<^verbatim>\<open>render\<close> (lines 122 to 126): spot values from \<^verbatim>\<open>S * 0.5\<close> to
  \<^verbatim>\<open>S * 1.5\<close>, each paired with the net profit at maturity (intrinsic value minus the
  premium \<open>price\<close>). The two arrays \<^verbatim>\<open>spot_range\<close> and \<^verbatim>\<open>payoff\<close> are the \<open>x\<close> and
  \<open>y\<close> of the plotted points. The number of points is the literal 100 in the source;
  \<open>payoff_points\<close> takes it as the parameter \<open>num\<close>, and \<open>payoff_curve\<close> is the
  computation as \<^verbatim>\<open>render\<close> has it.
\<close>

definition payoff_points ::
  "float64 \<Rightarrow> float64 \<Rightarrow> float64 \<Rightarrow> string \<Rightarrow> nat \<Rightarrow> (float64 \<times> float64) list" where
  "payoff_points S K price option_type num =
     (let spot_range = np_linspace (fmul S (Fin 0.5)) (fmul S (Fin 1.5)) num;
          payoff = (if option_type = ''call''
                    then map (\<lambda>s. fsub (np_maximum (fsub s K) (Fin 0)) price) spot_range
                    else map (\<lambda>s. fsub (np_maximum (fsub K s) (Fin 0)) price) spot_range)
      in zip spot_range payoff)"

definition payoff_curve :: "float64 \<Rightarrow> float64 \<Rightarrow> float64 \<Rightarrow> string \<Rightarrow> (float64 \<times> float64) list" where
  "payoff_curve S K price option_type = payoff_points S K price option_type 100"

section \<open>Values well inside the range\<close>

text \<open>
  The theorems on valid inputs ask that the values the formulas pass through keep a
  distance from the ends of the range: \<open>scaled_by n x\<close> says that \<open>x\<close> lies between
  \<open>2\<^sup>-\<^sup>n\<close> and \<open>2\<^sup>n\<close> in magnitude, \<open>normal\<close> is \<open>scaled_by 1000\<close>, and \<open>in_range\<close> allows
  zero as well. With that distance the rounding of the mantissa, which the model leaves
  out, cannot turn a result into a zero, an infinity or NaN.
\<close>

definition scaled_by :: "nat \<Rightarrow> real \<Rightarrow> bool" where
  "scaled_by n x = (1 / 2 ^ n \<le> \<bar>x\<bar> \<and> \<bar>x\<bar> \<le> 2 ^ n)"

definition normal :: "real \<Rightarrow> bool" where
  "normal x = scaled_by 1000 x"

definition in_range :: "real \<Rightarrow> bool" where
  "in_range x = (x = 0 \<or> normal x)"

text \<open>
  The intermediate values of the first line of \<^verbatim>\<open>black_scholes\<close> and
  \<^verbatim>\<open>calculate_greeks\<close>, up to \<open>d1\<close>: \<open>S / K\<close>, \<open>\<sigma>\<^sup>2\<close> and its half, the sum
  \<open>r + 0.5 \<sigma>\<^sup>2\<close> (which cannot overflow when \<open>r\<close> is at most \<open>2\<^sup>1\<^sup>0\<^sup>0\<^sup>0\<close> in magnitude),
  \<open>(r + 0.5 \<sigma>\<^sup>2) T\<close>, \<open>\<sigma> sqrt T\<close> and \<open>d1\<close> itself.
\<close>

definition d1_in_range :: "real \<Rightarrow> real \<Rightarrow> real \<Rightarrow> real \<Rightarrow> real \<Rightarrow> bool" where
  "d1_in_range S K T r sigma =
     (\<bar>r\<bar> \<le> 2 ^ 1000 \<and>
      normal (S / K) \<and> normal (sigma * sigma) \<and> normal (0.5 * (sigma * sigma)) \<and>
      in_range ((r + 0.5 * sigma\<^sup>2) * T) \<and> normal (sigma * sqrt T) \<and>
      in_range ((ln (S / K) + (r + 0.5 * sigma\<^sup>2) * T) / (sigma * sqrt T)))"

text \<open>The values of the discount factor \<^verbatim>\<open>np.exp(-r * T)\<close>.\<close>

definition discount_in_range :: "real \<Rightarrow> real \<Rightarrow> bool" where
  "discount_in_range T r = (in_range (r * T) \<and> normal (exp (- r * T)))"



text \<open>The values of Delta, Gamma and Theta, given \<open>d1\<close> and \<open>d2\<close>.\<close>

definition greeks_in_range ::
  "real \<Rightarrow> real \<Rightarrow> real \<Rightarrow> real \<Rightarrow> real \<Rightarrow> real \<Rightarrow> real \<Rightarrow> bool" where
  "greeks_in_range S K T r sigma d1 d2 =
     (discount_in_range T r \<and>
      in_range (std_normal_cdf d1) \<and> in_range (std_normal_cdf d2) \<and>
      normal (std_normal_pdf d1) \<and>
      normal (S * sigma) \<and> normal (S * sigma * sqrt T) \<and>
      normal (std_normal_pdf d1 / (S * sigma * sqrt T)) \<and>
      normal (S * std_normal_pdf d1) \<and> normal (S * std_normal_pdf d1 * sigma) \<and>
      normal (2 * sqrt T) \<and>
      normal (- (S * std_normal_pdf d1 * sigma) / (2 * sqrt T)) \<and>
      in_range (r * K) \<and> in_range (r * K * exp (- r * T)) \<and>
      in_range (r * K * exp (- r * T) * std_normal_cdf d2))"

section \<open>Integrals of powers of the cosine\<close>

text \<open>
  Two auxiliary functions for the bound \<open>0 \<le> \<Phi> x \<le> 1\<close>: \<open>cint m t\<close> is
  \<open>\<integral>\<^sub>0\<^sup>t cos\<^sup>m\<close>, by its reduction formula, and \<open>wallis m\<close> its value at \<open>\<pi> / 2\<close>.
\<close>

fun cint :: "nat \<Rightarrow> real \<Rightarrow> real" where
  "cint 0 t = t"
| "cint (Suc 0) t = sin t"
| "cint (Suc (Suc m)) t =
     cos t ^ Suc m * sin t / real (m + 2) + real (m + 1) / real (m + 2) * cint m t"

definition wallis :: "nat \<Rightarrow> real" where
  "wallis m = cint m (pi / 2)"

section \<open>The normal distribution function\<close>

lemma odd_pos: "0 < 2 * real k + 1"
proof -
  have "0 \<le> real k" by simp
  then show ?thesis by linarith
qed

lemma abs_gauss_coeff: "\<bar>gauss_coeff k\<bar> \<le> inverse (fact k)"
proof -
  have a: "\<bar>gauss_coeff k\<bar> = (1 / 2) ^ k * inverse (fact k) * inverse (2 * real k + 1)"
    unfolding gauss_coeff_def abs_mult power_abs abs_inverse
    using odd_pos[of k] by simp
  have h: "(1 / 2 :: real) ^ k \<le> 1" by (rule power_le_one) simp_all
  have i: "inverse (2 * real k + 1) \<le> 1"
    using odd_pos[of k] by (simp add: inverse_le_1_iff)
  have i0: "0 \<le> inverse (2 * real k + 1)"
    using odd_pos[of k] by simp
  have f0: "(0::real) \<le> inverse (fact k)" by simp
  have "(1 / 2 :: real) ^ k * inverse (fact k) \<le> 1 * inverse (fact k)"
    using h f0 by (rule mult_right_mono)
  then have "(1 / 2) ^ k * inverse (fact k) * inverse (2 * real k + 1) \<le> (1 * inverse (fact k)) * 1"
    using i i0 by (intro mult_mono) simp_all
  with a show ?thesis by simp
qed

lemma summable_gauss: "summable (\<lambda>k. gauss_coeff k * y ^ k)"
proof (rule summable_comparison_test')
  show "summable (\<lambda>k. inverse (fact k) * \<bar>y\<bar> ^ k)"
    by (rule summable_exp)
next
  fix k :: nat
  have "norm (gauss_coeff k * y ^ k) = \<bar>gauss_coeff k\<bar> * \<bar>y\<bar> ^ k"
    by (simp add: abs_mult power_abs)
  also have "\<dots> \<le> inverse (fact k) * \<bar>y\<bar> ^ k"
    by (rule mult_right_mono[OF abs_gauss_coeff]) simp
  finally show "norm (gauss_coeff k * y ^ k) \<le> inverse (fact k) * \<bar>y\<bar> ^ k" .
qed

lemma gauss_series_deriv:
  "(gauss_series has_real_derivative (\<Sum>k. diffs gauss_coeff k * y ^ k)) (at y)"
proof -
  have "norm y < norm (\<bar>y\<bar> + 1)" by simp
  from termdiffs_strong[OF summable_gauss[of "\<bar>y\<bar> + 1"] this]
  show ?thesis unfolding gauss_series_def .
qed

lemma gauss_term: "gauss_coeff k * y ^ k + 2 * real k * gauss_coeff k * y ^ k = (- y / 2) ^ k /\<^sub>R fact k"
proof -
  have "- y / 2 = (- 1 / 2) * y" by simp
  then have e: "(- y / 2) ^ k = (- 1 / 2) ^ k * y ^ k"
    by (simp only: power_mult_distrib)
  have c: "(2 * real k + 1) * inverse (2 * real k + 1) = 1"
    using odd_pos[of k] by simp
  have "gauss_coeff k * y ^ k + 2 * real k * gauss_coeff k * y ^ k
        = ((2 * real k + 1) * inverse (2 * real k + 1)) * ((- 1 / 2) ^ k * inverse (fact k) * y ^ k)"
    unfolding gauss_coeff_def by (simp only: algebra_simps)
  also have "\<dots> = inverse (fact k) * ((- 1 / 2) ^ k * y ^ k)"
    unfolding c by (simp only: mult_1 mult_ac)
  finally show ?thesis
    unfolding e by (simp only: scaleR_conv_of_real of_real_inverse of_real_fact real_scaleR_def)
qed

lemma gauss_series_ode:
  "gauss_series y + 2 * y * (\<Sum>k. diffs gauss_coeff k * y ^ k) = exp (- y / 2)"
proof -
  let ?d = "\<Sum>k. diffs gauss_coeff k * y ^ k"
  have sd: "summable (\<lambda>k. diffs gauss_coeff k * y ^ k)"
    by (rule termdiff_converges_all) (rule summable_gauss)
  have "(\<lambda>k. real k * gauss_coeff k * y ^ (k - Suc 0)) sums ?d"
    using diffs_equiv[OF sd] by simp
  then have "(\<lambda>k. (2 * y) * (real k * gauss_coeff k * y ^ (k - Suc 0))) sums (2 * y * ?d)"
    by (rule sums_mult)
  moreover have "(\<lambda>k. (2 * y) * (real k * gauss_coeff k * y ^ (k - Suc 0))) = (\<lambda>k. 2 * real k * gauss_coeff k * y ^ k)"
  proof
    fix k show "(2 * y) * (real k * gauss_coeff k * y ^ (k - Suc 0)) = 2 * real k * gauss_coeff k * y ^ k"
      by (cases k) simp_all
  qed
  ultimately have s2: "(\<lambda>k. 2 * real k * gauss_coeff k * y ^ k) sums (2 * y * ?d)" by simp
  have s1: "(\<lambda>k. gauss_coeff k * y ^ k) sums gauss_series y"
    unfolding gauss_series_def by (rule summable_sums[OF summable_gauss])
  have "(\<lambda>k. gauss_coeff k * y ^ k + 2 * real k * gauss_coeff k * y ^ k) sums (gauss_series y + 2 * y * ?d)"
    by (rule sums_add[OF s1 s2])
  then have "(\<lambda>k. (- y / 2) ^ k /\<^sub>R fact k) sums (gauss_series y + 2 * y * ?d)"
    by (simp only: gauss_term)
  moreover have "(\<lambda>k. (- y / 2) ^ k /\<^sub>R fact k) sums exp (- y / 2)"
    by (rule exp_converges)
  ultimately show ?thesis by (rule sums_unique2)
qed

lemma gauss_int_deriv: "(gauss_int has_real_derivative exp (- (x\<^sup>2) / 2)) (at x)"
proof -
  let ?d = "\<Sum>k. diffs gauss_coeff k * (x\<^sup>2) ^ k"
  have "((\<lambda>x. x * gauss_series (x\<^sup>2)) has_real_derivative
           (1 * gauss_series (x\<^sup>2) + (?d * (2 * x)) * x)) (at x)"
    by (rule derivative_eq_intros DERIV_chain2[OF gauss_series_deriv] refl)+ simp
  moreover have "1 * gauss_series (x\<^sup>2) + (?d * (2 * x)) * x = exp (- (x\<^sup>2) / 2)"
    using gauss_series_ode[of "x\<^sup>2"] by (simp add: power2_eq_square algebra_simps)
  ultimately show ?thesis
    unfolding gauss_int_def[abs_def] by simp
qed

lemma gauss_int_minus: "gauss_int (- x) = - gauss_int x"
  by (simp add: gauss_int_def)

lemma gauss_int_0: "gauss_int 0 = 0"
  by (simp add: gauss_int_def)

lemma cint_step_algebra:
  fixes c s :: real
  assumes "s * s = 1 - c * c"
  shows "((real (Suc m) * c ^ m * (- s)) * s + c ^ Suc m * c) / real (m + 2)
           + real (m + 1) / real (m + 2) * c ^ m = c ^ Suc (Suc m)"
proof -
  have n: "real (m + 2) \<noteq> 0" by simp
  have "(real (Suc m) * c ^ m * (- s)) * s + c ^ Suc m * c + real (m + 1) * c ^ m
        = real (Suc m) * c ^ m * (1 - s * s) + c ^ Suc m * c"
    by (simp add: algebra_simps)
  also have "\<dots> = real (Suc m) * c ^ m * (c * c) + c ^ Suc m * c"
    using assms by simp
  also have "\<dots> = real (m + 2) * c ^ Suc (Suc m)"
    by (simp add: algebra_simps)
  finally have "((real (Suc m) * c ^ m * (- s)) * s + c ^ Suc m * c + real (m + 1) * c ^ m) / real (m + 2)
                = c ^ Suc (Suc m)"
    using n by simp
  then show ?thesis
    by (simp only: add_divide_distrib times_divide_eq_left)
qed

lemma cint_deriv: "(cint m has_real_derivative cos t ^ m) (at t)"
proof (induction m t rule: cint.induct)
  case (1 t)
  show ?case by (simp add: cint.simps[abs_def])
next
  case (2 t)
  have "(sin has_real_derivative cos t) (at t)" by (rule DERIV_sin)
  then show ?case by (simp add: cint.simps[abs_def])
next
  case (3 m t)
  have ss: "sin t * sin t = 1 - cos t * cos t"
    using sin_cos_squared_add[of t] by (simp add: power2_eq_square algebra_simps)
  have "((\<lambda>t. cos t ^ Suc m * sin t / real (m + 2) + real (m + 1) / real (m + 2) * cint m t)
          has_real_derivative
          ((real (Suc m) * cos t ^ m * (- sin t)) * sin t + cos t ^ Suc m * cos t) / real (m + 2)
           + real (m + 1) / real (m + 2) * cos t ^ m) (at t)"
    by (rule derivative_eq_intros "3.IH" refl | simp add: mult_ac)+
  then show ?case
    unfolding cint_step_algebra[OF ss] by (simp add: cint.simps[abs_def])
qed

lemma cint_0: "cint m 0 = 0"
  by (induction m "0::real" rule: cint.induct) simp_all

lemma wallis_0: "wallis 0 = pi / 2"
  by (simp add: wallis_def)

lemma wallis_1: "wallis (Suc 0) = 1"
  by (simp add: wallis_def)

lemma wallis_Suc_Suc: "wallis (Suc (Suc m)) = real (m + 1) / real (m + 2) * wallis m"
  by (simp add: wallis_def)

lemma wallis_pos: "0 < wallis m"
proof (induction m rule: induct_nat_012)
  case 0
  show ?case by (simp add: wallis_0)
next
  case 1
  show ?case by (simp add: wallis_1)
next
  case (ge2 n)
  have "0 < real (n + 1) / real (n + 2)" by simp
  then show ?case
    unfolding wallis_Suc_Suc using ge2(1) by (rule mult_pos_pos)
qed

lemma wallis_cancel:
  fixes a b :: real
  assumes "a \<noteq> 0"
  shows "a / b * (pi / (2 * a)) = pi / (2 * b)"
  using assms by simp

lemma wallis_prod: "wallis (Suc m) * wallis m = pi / (2 * real (m + 1))"
proof (induction m)
  case 0
  show ?case by (simp add: wallis_0 wallis_1)
next
  case (Suc m)
  have "wallis (Suc (Suc m)) * wallis (Suc m)
        = real (m + 1) / real (m + 2) * (wallis (Suc m) * wallis m)"
    unfolding wallis_Suc_Suc by (simp only: mult_ac)
  also have "\<dots> = real (m + 1) / real (m + 2) * (pi / (2 * real (m + 1)))"
    unfolding Suc.IH ..
  also have "\<dots> = pi / (2 * real (Suc m + 1))"
  proof -
    have a: "real (m + 1) \<noteq> 0" by simp
    have b: "m + 2 = Suc m + 1" by simp
    show ?thesis unfolding wallis_cancel[OF a] b ..
  qed
  finally show ?case .
qed

lemma cint_decreasing_in_power:
  assumes "0 \<le> t" "t \<le> pi / 2"
  shows "cint (Suc m) t \<le> cint m t"
proof -
  let ?f = "\<lambda>u. cint m u - cint (Suc m) u"
  have "?f 0 \<le> ?f t"
  proof (rule DERIV_nonneg_imp_nondecreasing[OF assms(1)])
    fix u assume u: "0 \<le> u" "u \<le> t"
    have c0: "0 \<le> cos u"
      by (rule cos_ge_zero) (use u assms(2) in simp_all)
    have c1: "cos u \<le> 1" by simp
    have d: "(?f has_real_derivative (cos u ^ m - cos u ^ Suc m)) (at u)"
      by (rule derivative_intros cint_deriv)+
    have "cos u ^ m * cos u \<le> cos u ^ m * 1"
      by (rule mult_left_mono[OF c1]) (simp add: c0)
    then have "0 \<le> cos u ^ m - cos u ^ Suc m" by (simp add: mult.commute)
    with d show "\<exists>y. (?f has_real_derivative y) (at u) \<and> 0 \<le> y" by blast
  qed
  then show ?thesis by (simp add: cint_0)
qed

lemma wallis_decreasing: "wallis (Suc m) \<le> wallis m"
  unfolding wallis_def by (rule cint_decreasing_in_power) simp_all

lemma wallis_square: "(wallis (Suc m))\<^sup>2 \<le> pi / (2 * real (m + 1))"
proof -
  have "wallis (Suc m) * wallis (Suc m) \<le> wallis (Suc m) * wallis m"
    by (rule mult_left_mono[OF wallis_decreasing]) (rule less_imp_le[OF wallis_pos])
  then show ?thesis
    unfolding wallis_prod by (simp add: power2_eq_square)
qed

lemma cint_even_mono:
  assumes "a \<le> b"
  shows "cint (2 * m) a \<le> cint (2 * m) b"
proof (rule DERIV_nonneg_imp_nondecreasing[OF assms])
  fix u :: real
  have "0 \<le> cos u ^ (2 * m)" by (simp add: power_mult)
  with cint_deriv[of "2 * m" u]
  show "\<exists>y. (cint (2 * m) has_real_derivative y) (at u) \<and> 0 \<le> y" by blast
qed

lemma cos_arctan_power:
  "cos (arctan u) ^ (2 * m) = inverse (1 + u\<^sup>2) ^ m"
proof -
  have p: "0 < 1 + u\<^sup>2" by (simp add: add_pos_nonneg)
  have "(cos (arctan u))\<^sup>2 = inverse (1 + u\<^sup>2)"
    unfolding cos_arctan using p by (simp add: power_divide inverse_eq_divide)
  then show ?thesis by (simp add: power_mult)
qed

lemma exp_le_inverse_power:
  fixes y :: real
  assumes "0 \<le> y"
  shows "exp (- (real (Suc m) * y)) \<le> inverse (1 + y) ^ Suc m"
proof -
  have p: "0 < 1 + y" using assms by simp
  have "(1 + y) ^ Suc m \<le> exp y ^ Suc m"
    by (rule power_mono[OF exp_ge_add_one_self]) (use p in simp)
  also have "\<dots> = exp (real (Suc m) * y)"
    by (simp only: exp_of_nat_mult)
  finally have "(1 + y) ^ Suc m \<le> exp (real (Suc m) * y)" .
  moreover have "0 < (1 + y) ^ Suc m" using p by (rule zero_less_power)
  ultimately have "inverse (exp (real (Suc m) * y)) \<le> inverse ((1 + y) ^ Suc m)"
    by (rule le_imp_inverse_le)
  then show ?thesis
    by (simp only: exp_minus power_inverse)
qed

lemma half_cancel:
  fixes a b :: real
  assumes "a \<noteq> 0"
  shows "a * (b / (2 * a)) = b / 2"
  using assms by simp

lemma gauss_int_le_wallis:
  assumes "0 \<le> x"
  shows "gauss_int x \<le> sqrt (2 * real (Suc m)) * wallis (2 * m)"
proof -
  define s where "s = sqrt (2 * real (Suc m))"
  have s0: "0 < s" unfolding s_def by simp
  have s2: "s\<^sup>2 = 2 * real (Suc m)" unfolding s_def by simp
  let ?H = "\<lambda>x. s * cint (2 * m) (arctan (x / s))"
  let ?f = "\<lambda>x. ?H x - gauss_int x"
  have "?f 0 \<le> ?f x"
  proof (rule DERIV_nonneg_imp_nondecreasing[OF assms])
    fix u :: real
    define y where "y = (u / s)\<^sup>2"
    have y0: "0 \<le> y" unfolding y_def by simp
    have n0: "real (Suc m) \<noteq> 0" by simp
    have my: "real (Suc m) * y = u\<^sup>2 / 2"
      unfolding y_def power_divide s2 by (rule half_cancel[OF n0])
    have dH: "(?H has_real_derivative
                s * (cos (arctan (u / s)) ^ (2 * m) * (inverse (1 + (u / s)\<^sup>2) * (1 / s)))) (at u)"
      by (rule derivative_eq_intros DERIV_chain2[OF cint_deriv] DERIV_chain2[OF DERIV_arctan] refl
          | simp add: s0 less_imp_neq[THEN not_sym])+
    have e: "s * (cos (arctan (u / s)) ^ (2 * m) * (inverse (1 + (u / s)\<^sup>2) * (1 / s)))
             = inverse (1 + y) ^ Suc m"
      unfolding cos_arctan_power y_def[symmetric] using s0 by simp
    have d: "(?f has_real_derivative (inverse (1 + y) ^ Suc m - exp (- (u\<^sup>2) / 2))) (at u)"
      unfolding e[symmetric] by (rule DERIV_diff[OF dH gauss_int_deriv])
    have "exp (- (u\<^sup>2) / 2) \<le> inverse (1 + y) ^ Suc m"
      using exp_le_inverse_power[OF y0, of m] unfolding my by simp
    then have "0 \<le> inverse (1 + y) ^ Suc m - exp (- (u\<^sup>2) / 2)" by simp
    with d show "\<exists>z. (?f has_real_derivative z) (at u) \<and> 0 \<le> z" by blast
  qed
  then have "gauss_int x \<le> ?H x"
    by (simp add: cint_0 gauss_int_0)
  also have "\<dots> \<le> s * cint (2 * m) (pi / 2)"
    by (rule mult_left_mono[OF cint_even_mono]) (use arctan_ubound[of "x / s"] s0 in simp_all)
  finally show ?thesis unfolding s_def wallis_def .
qed

lemma gauss_int_nonneg:
  assumes "0 \<le> x"
  shows "0 \<le> gauss_int x"
proof -
  have "gauss_int 0 \<le> gauss_int x"
  proof (rule DERIV_nonneg_imp_nondecreasing[OF assms])
    fix u :: real
    have "0 \<le> exp (- (u\<^sup>2) / 2)" by simp
    with gauss_int_deriv[of u]
    show "\<exists>y. (gauss_int has_real_derivative y) (at u) \<and> 0 \<le> y" by blast
  qed
  then show ?thesis by (simp add: gauss_int_0)
qed

lemma wallis_tail_algebra:
  fixes n p :: real
  assumes "n \<noteq> 0"
  shows "2 * (n + 1) * (p / (4 * n)) = p / 2 + p / 2 / n"
  using assms by (simp add: field_simps)

lemma gauss_int_sq_le:
  assumes "0 \<le> x"
  shows "(gauss_int x)\<^sup>2 \<le> pi / 2 + pi / 2 / real (Suc j)"
proof -
  define W where "W = wallis (2 * Suc j)"
  define a where "a = sqrt (2 * real (Suc (Suc j)))"
  have a2: "a\<^sup>2 = 2 * (real (Suc j) + 1)" unfolding a_def by simp
  have idx: "2 * Suc j = Suc (Suc (2 * j))" by simp
  have "W\<^sup>2 \<le> pi / (2 * real (Suc (2 * j) + 1))"
    unfolding W_def idx by (rule wallis_square)
  also have "2 * real (Suc (2 * j) + 1) = 4 * real (Suc j)" by simp
  finally have W2: "W\<^sup>2 \<le> pi / (4 * real (Suc j))" .
  have "gauss_int x \<le> a * W"
    unfolding a_def W_def by (rule gauss_int_le_wallis[OF assms])
  then have "(gauss_int x)\<^sup>2 \<le> (a * W)\<^sup>2"
    using gauss_int_nonneg[OF assms] by (rule power_mono)
  also have "\<dots> = 2 * (real (Suc j) + 1) * W\<^sup>2"
    unfolding power_mult_distrib a2 ..
  also have "\<dots> \<le> 2 * (real (Suc j) + 1) * (pi / (4 * real (Suc j)))"
    by (rule mult_left_mono[OF W2]) simp
  also have "\<dots> = pi / 2 + pi / 2 / real (Suc j)"
    by (rule wallis_tail_algebra) simp
  finally show ?thesis .
qed

lemma gauss_int_sq_le_half_pi:
  assumes "0 \<le> x"
  shows "(gauss_int x)\<^sup>2 \<le> pi / 2"
proof (rule field_le_epsilon)
  fix e :: real
  assume e: "0 < e"
  obtain j :: nat where j: "pi / 2 / e < real j"
    using reals_Archimedean2 by blast
  have "pi / 2 / e < real (Suc j)" using j by simp
  then have "pi / 2 / real (Suc j) < e"
    using e by (simp add: field_simps)
  with gauss_int_sq_le[OF assms, of j]
  show "(gauss_int x)\<^sup>2 \<le> pi / 2 + e" by linarith
qed

lemma abs_gauss_int_le: "\<bar>gauss_int x\<bar> \<le> sqrt (pi / 2)"
proof -
  have "(gauss_int \<bar>x\<bar>)\<^sup>2 \<le> pi / 2"
    by (rule gauss_int_sq_le_half_pi) simp
  moreover have "(gauss_int \<bar>x\<bar>)\<^sup>2 = (gauss_int x)\<^sup>2"
    by (cases "0 \<le> x") (simp_all add: abs_if gauss_int_minus)
  ultimately have "(gauss_int x)\<^sup>2 \<le> pi / 2" by simp
  then have "sqrt ((gauss_int x)\<^sup>2) \<le> sqrt (pi / 2)"
    by (rule real_sqrt_le_mono)
  then show ?thesis by simp
qed

lemma std_normal_cdf_symmetric: "std_normal_cdf (- x) = 1 - std_normal_cdf x"
  by (simp add: std_normal_cdf_def gauss_int_minus)

lemma std_normal_cdf_range: "0 \<le> std_normal_cdf x \<and> std_normal_cdf x \<le> 1"
proof -
  have r: "sqrt (2 * pi) = 2 * sqrt (pi / 2)"
  proof (rule real_sqrt_unique)
    show "(2 * sqrt (pi / 2))\<^sup>2 = 2 * pi"
      by (simp add: power_mult_distrib)
    show "0 \<le> 2 * sqrt (pi / 2)" by simp
  qed
  have p: "0 < sqrt (pi / 2)" by simp
  have "\<bar>gauss_int x\<bar> / sqrt (2 * pi) \<le> 1 / 2"
    unfolding r using abs_gauss_int_le[of x] p by (simp add: field_simps)
  then have "\<bar>gauss_int x / sqrt (2 * pi)\<bar> \<le> 1 / 2"
    by simp
  then show ?thesis
    unfolding std_normal_cdf_def by linarith
qed

lemma std_normal_cdf_deriv:
  "(std_normal_cdf has_real_derivative std_normal_pdf x) (at x)"
proof -
  have "((\<lambda>x. gauss_int x / sqrt (2 * pi)) has_real_derivative exp (- (x\<^sup>2) / 2) / sqrt (2 * pi)) (at x)"
    by (rule DERIV_cdivide[OF gauss_int_deriv])
  from DERIV_add[OF DERIV_const[of "1 / 2"] this]
  show ?thesis unfolding std_normal_cdf_def[abs_def] std_normal_pdf_def by simp
qed

lemma std_normal_cdf_0: "std_normal_cdf 0 = 1 / 2"
  by (simp add: std_normal_cdf_def gauss_int_0)

section \<open>Arithmetic on values inside the range\<close>

lemma overflow_threshold_gt: "2 ^ 1020 < overflow_threshold"
proof -
  have "(2::real) ^ 970 \<le> 2 ^ 1020" by (rule power_increasing) simp_all
  moreover have "(2::real) ^ 1024 = 16 * 2 ^ 1020"
  proof -
    have "(2::real) ^ 1024 = 2 ^ 4 * 2 ^ 1020" by (simp only: power_add[symmetric]) simp
    then show ?thesis by simp
  qed
  moreover have "(0::real) < 2 ^ 1020" by simp
  ultimately show ?thesis unfolding overflow_threshold_def by linarith
qed

lemma underflow_threshold_lt: "underflow_threshold < 1 / 2 ^ 1020"
proof -
  have "(2::real) ^ 1020 < 2 ^ 1075" by (rule power_strict_increasing) simp_all
  then show ?thesis
    unfolding underflow_threshold_def by (simp add: frac_less2)
qed

lemma to_float64_Fin:
  assumes "1 / 2 ^ 1020 \<le> \<bar>x\<bar>" "\<bar>x\<bar> \<le> 2 ^ 1020"
  shows "to_float64 x = Fin x"
  using assms overflow_threshold_gt underflow_threshold_lt
  unfolding to_float64_def by (auto simp del: power_Suc)

lemma to_float64_0: "to_float64 0 = Fin 0"
proof -
  have "0 < overflow_threshold" using overflow_threshold_gt
    by (rule less_trans[rotated]) simp
  moreover have "0 \<le> underflow_threshold" unfolding underflow_threshold_def by simp
  ultimately show ?thesis unfolding to_float64_def zero_of_def by simp
qed

lemma sum_to_float64_Fin:
  assumes "\<bar>x\<bar> \<le> 2 ^ 1020"
  shows "sum_to_float64 x = Fin x"
  using assms overflow_threshold_gt unfolding sum_to_float64_def by auto

lemma scaled_by_mono: "m \<le> n \<Longrightarrow> scaled_by m x \<Longrightarrow> scaled_by n x"
proof -
  assume mn: "m \<le> n" and s: "scaled_by m x"
  have a: "(2::real) ^ m \<le> 2 ^ n" using mn by (rule power_increasing) simp
  then have b: "1 / (2::real) ^ n \<le> 1 / 2 ^ m"
    by (simp add: frac_le)
  from s a b show ?thesis unfolding scaled_by_def by linarith
qed

lemma scaled_by_mult:
  assumes "scaled_by m x" "scaled_by n y"
  shows "scaled_by (m + n) (x * y)"
proof -
  have x: "1 / 2 ^ m \<le> \<bar>x\<bar>" "\<bar>x\<bar> \<le> 2 ^ m" and y: "1 / 2 ^ n \<le> \<bar>y\<bar>" "\<bar>y\<bar> \<le> 2 ^ n"
    using assms unfolding scaled_by_def by simp_all
  have "(1 / 2 ^ m) * (1 / 2 ^ n) \<le> \<bar>x\<bar> * \<bar>y\<bar>"
    by (rule mult_mono[OF x(1) y(1)]) simp_all
  moreover have "\<bar>x\<bar> * \<bar>y\<bar> \<le> 2 ^ m * 2 ^ n"
    by (rule mult_mono[OF x(2) y(2)]) simp_all
  ultimately show ?thesis
    unfolding scaled_by_def by (simp add: abs_mult power_add)
qed

lemma scaled_by_inverse:
  assumes "scaled_by n y"
  shows "scaled_by n (1 / y)"
proof -
  have y: "1 / 2 ^ n \<le> \<bar>y\<bar>" "\<bar>y\<bar> \<le> 2 ^ n"
    using assms unfolding scaled_by_def by simp_all
  have p: "0 < \<bar>y\<bar>" using y(1) by (rule less_le_trans[rotated]) simp
  have "1 / \<bar>y\<bar> \<le> 1 / (1 / 2 ^ n)"
    by (rule divide_left_mono[OF y(1)]) (use p in simp_all)
  moreover have "1 / 2 ^ n \<le> 1 / \<bar>y\<bar>"
    by (rule divide_left_mono[OF y(2)]) (use p in simp_all)
  ultimately show ?thesis
    unfolding scaled_by_def by (simp add: abs_divide)
qed

lemma scaled_by_divide:
  assumes "scaled_by m x" "scaled_by n y"
  shows "scaled_by (m + n) (x / y)"
  using scaled_by_mult[OF assms(1) scaled_by_inverse[OF assms(2)]] by simp

lemma scaled_by_to_float64: "n \<le> 1020 \<Longrightarrow> scaled_by n x \<Longrightarrow> to_float64 x = Fin x"
  using scaled_by_mono[of n 1020 x] to_float64_Fin[of x] unfolding scaled_by_def by simp

lemma normal_to_float64: "normal x \<Longrightarrow> to_float64 x = Fin x"
  unfolding normal_def by (rule scaled_by_to_float64[of 1000]) simp_all

lemma in_range_to_float64: "in_range x \<Longrightarrow> to_float64 x = Fin x"
  unfolding in_range_def using normal_to_float64 to_float64_0 by auto

lemma normal_bound: "normal x \<Longrightarrow> \<bar>x\<bar> \<le> 2 ^ 1000"
  unfolding normal_def scaled_by_def by simp

lemma in_range_bound: "in_range x \<Longrightarrow> \<bar>x\<bar> \<le> 2 ^ 1000"
  unfolding in_range_def using normal_bound by auto

lemma normal_nonzero: "normal x \<Longrightarrow> x \<noteq> 0"
  unfolding normal_def scaled_by_def by auto

lemma fadd_Fin:
  assumes "\<bar>x\<bar> \<le> 2 ^ 1002" "\<bar>y\<bar> \<le> 2 ^ 1002"
  shows "fadd (Fin x) (Fin y) = Fin (x + y)"
proof -
  have "(2::real) ^ 1002 + 2 ^ 1002 = 2 ^ 1003" by simp
  moreover have "(2::real) ^ 1003 \<le> 2 ^ 1020" by (rule power_increasing) simp_all
  ultimately have "\<bar>x + y\<bar> \<le> 2 ^ 1020" using assms by linarith
  then show ?thesis by (simp add: sum_to_float64_Fin)
qed

lemma fsub_Fin:
  assumes "\<bar>x\<bar> \<le> 2 ^ 1002" "\<bar>y\<bar> \<le> 2 ^ 1002"
  shows "fsub (Fin x) (Fin y) = Fin (x - y)"
proof (cases "y = 0")
  case True
  then show ?thesis by (simp add: fsub_def)
next
  case False
  then show ?thesis
    using fadd_Fin[OF assms(1), of "- y"] assms(2) by (simp add: fsub_def)
qed

lemma fmul_Fin_nonzero:
  assumes "normal (x * y)"
  shows "fmul (Fin x) (Fin y) = Fin (x * y)"
proof -
  have "x * y \<noteq> 0" using assms by (rule normal_nonzero)
  then have "x \<noteq> 0" "y \<noteq> 0" by auto
  then show ?thesis
    unfolding fmul_def using normal_to_float64[OF assms] by simp
qed

lemma fmul_Fin_nonneg:
  assumes "in_range (x * y)" "0 \<le> x" "0 \<le> y"
  shows "fmul (Fin x) (Fin y) = Fin (x * y)"
proof (cases "x * y = 0")
  case True
  then show ?thesis
    unfolding fmul_def zero_of_def using assms(2,3) by auto
next
  case False
  then have "normal (x * y)" using assms(1) unfolding in_range_def by simp
  then show ?thesis by (rule fmul_Fin_nonzero)
qed


lemma fmul_Fin_pos_right:
  assumes "0 < y" "in_range (x * y)"
  shows "fmul (Fin x) (Fin y) = Fin (x * y)"
proof (cases "x * y = 0")
  case True
  then have "x = 0" using assms(1) by simp
  then show ?thesis
    unfolding fmul_def zero_of_def using assms(1) by auto
next
  case False
  then have "normal (x * y)" using assms(2) unfolding in_range_def by simp
  then show ?thesis by (rule fmul_Fin_nonzero)
qed

lemma fdiv_Fin_pos:
  assumes "0 < y" "in_range (x / y)"
  shows "fdiv (Fin x) (Fin y) = Fin (x / y)"
proof (cases "x = 0")
  case True
  then show ?thesis
    unfolding fdiv_def zero_of_def using assms(1) by auto
next
  case False
  then have "x / y \<noteq> 0" using assms(1) by simp
  then have "normal (x / y)" using assms(2) unfolding in_range_def by simp
  then have "to_float64 (x / y) = Fin (x / y)" by (rule normal_to_float64)
  then show ?thesis
    unfolding fdiv_def using False assms(1) by simp
qed

lemma py_truediv_pos:
  assumes "0 < K" "normal (S / K)"
  shows "py_truediv (Fin S) (Fin K) = Inr (Fin (S / K))"
proof -
  have "in_range (S / K)" using assms(2) unfolding in_range_def by simp
  from fdiv_Fin_pos[OF assms(1) this] assms(1)
  show ?thesis unfolding py_truediv_def by simp
qed

lemma py_square_Fin:
  assumes "normal (x * x)"
  shows "py_square (Fin x) = Inr (Fin (x * x))"
proof -
  have "x * x \<le> 2 ^ 1000" using normal_bound[OF assms] by simp
  also have "(2::real) ^ 1000 \<le> 2 ^ 1020" by (rule power_increasing) simp_all
  also note overflow_threshold_gt
  finally have "\<not> overflow_threshold \<le> x * x" by simp
  then show ?thesis
    unfolding py_square_def using normal_to_float64[OF assms] by simp
qed

lemma discount_Fin:
  assumes "0 < T" "discount_in_range T r"
  shows "np_exp (fmul (fneg (Fin r)) (Fin T)) = Fin (exp (- r * T))"
proof (cases "r = 0")
  case True
  then show ?thesis unfolding fmul_def zero_of_def using assms(1) by simp
next
  case False
  have e: "normal (exp (- r * T))" and rt: "in_range (r * T)"
    using assms(2) unfolding discount_in_range_def by simp_all
  have "r * T \<noteq> 0" using False assms(1) by simp
  then have "normal (r * T)" using rt unfolding in_range_def by simp
  then have "normal ((- r) * T)" unfolding normal_def scaled_by_def by simp
  then have "fmul (Fin (- r)) (Fin T) = Fin ((- r) * T)" by (rule fmul_Fin_nonzero)
  then show ?thesis
    using False normal_to_float64[OF e] by simp
qed

lemma norm_cdf_Fin: "in_range (std_normal_cdf x) \<Longrightarrow> norm_cdf (Fin x) = Fin (std_normal_cdf x)"
  by (simp add: in_range_to_float64)


lemma abs_ln_le:
  assumes "0 < q" "normal q"
  shows "\<bar>ln q\<bar> \<le> 2 ^ 1000"
proof -
  have q: "1 / 2 ^ 1000 \<le> q" "q \<le> 2 ^ 1000"
    using assms unfolding normal_def scaled_by_def by simp_all
  have "ln q \<le> q - 1" using assms(1) by (rule ln_le_minus_one)
  then have u: "ln q \<le> 2 ^ 1000" using q(2) by linarith
  have qi: "1 / q \<le> 2 ^ 1000"
    using q(1) assms(1) by (simp add: field_simps)
  have "ln (1 / q) \<le> 1 / q - 1" by (rule ln_le_minus_one) (use assms(1) in simp)
  then have "- ln q \<le> 2 ^ 1000"
    using qi assms(1) by (simp add: ln_div)
  with u show ?thesis by linarith
qed

lemma bound_weaken: "\<bar>x\<bar> \<le> 2 ^ 1000 \<Longrightarrow> \<bar>x::real\<bar> \<le> 2 ^ 1002"
proof -
  assume "\<bar>x\<bar> \<le> 2 ^ 1000"
  moreover have "(2::real) ^ 1000 \<le> 2 ^ 1002" by (rule power_increasing) simp_all
  ultimately show ?thesis by linarith
qed

lemma first_line_Fin:
  fixes S K T r sigma :: real
  assumes pos: "0 < S" "0 < K" "0 < T" "0 < sigma"
    and rng: "d1_in_range S K T r sigma"
  defines "v \<equiv> sigma * sqrt T"
  defines "d1 \<equiv> (ln (S / K) + (r + 0.5 * sigma\<^sup>2) * T) / v"
  shows "py_truediv (Fin S) (Fin K) = Inr (Fin (S / K))"
    and "py_square (Fin sigma) = Inr (Fin (sigma * sigma))"
    and "fmul (Fin sigma) (np_sqrt (Fin T)) = Fin v"
    and "fdiv (fadd (np_log (Fin (S / K))) (fmul (fadd (Fin r) (fmul (Fin 0.5) (Fin (sigma * sigma)))) (Fin T)))
              (Fin v) = Fin d1"
    and "fsub (Fin d1) (Fin v) = Fin (d1 - v)"
proof -
  have r: "\<bar>r\<bar> \<le> 2 ^ 1000" and q: "normal (S / K)" and sq: "normal (sigma * sigma)"
    and hs: "normal (0.5 * (sigma * sigma))"
    and a: "in_range ((r + 0.5 * (sigma * sigma)) * T)"
    and nv: "normal v"
    and nd: "in_range d1"
    using rng unfolding d1_in_range_def v_def d1_def power2_eq_square by simp_all
  show 1: "py_truediv (Fin S) (Fin K) = Inr (Fin (S / K))"
    using pos(2) q by (rule py_truediv_pos)
  show 2: "py_square (Fin sigma) = Inr (Fin (sigma * sigma))"
    using sq by (rule py_square_Fin)
  have st: "np_sqrt (Fin T) = Fin (sqrt T)" using pos(3) by simp
  show 3: "fmul (Fin sigma) (np_sqrt (Fin T)) = Fin v"
    unfolding st v_def using nv[unfolded v_def] by (rule fmul_Fin_nonzero)
  have qpos: "0 < S / K" using pos(1,2) by simp
  have q0: "S / K \<noteq> 0" "\<not> S / K < 0" using qpos by linarith+
  have l: "np_log (Fin (S / K)) = Fin (ln (S / K))"
    by (simp only: np_log.simps q0 if_False)
  have h: "fmul (Fin 0.5) (Fin (sigma * sigma)) = Fin (0.5 * (sigma * sigma))"
    using hs by (rule fmul_Fin_nonzero)
  have s: "fadd (Fin r) (Fin (0.5 * (sigma * sigma))) = Fin (r + 0.5 * (sigma * sigma))"
    by (rule fadd_Fin) (rule bound_weaken, rule r, rule bound_weaken, rule normal_bound[OF hs])
  have t: "fmul (Fin (r + 0.5 * (sigma * sigma))) (Fin T) = Fin ((r + 0.5 * (sigma * sigma)) * T)"
    using pos(3) a by (rule fmul_Fin_pos_right)
  have n: "fadd (Fin (ln (S / K))) (Fin ((r + 0.5 * (sigma * sigma)) * T))
           = Fin (ln (S / K) + (r + 0.5 * (sigma * sigma)) * T)"
    by (rule fadd_Fin) (rule bound_weaken, rule abs_ln_le[OF qpos q], rule bound_weaken, rule in_range_bound[OF a])
  have vpos: "0 < v" unfolding v_def using pos(3,4) by simp
  show 4: "fdiv (fadd (np_log (Fin (S / K))) (fmul (fadd (Fin r) (fmul (Fin 0.5) (Fin (sigma * sigma)))) (Fin T)))
              (Fin v) = Fin d1"
    unfolding l h s t n d1_def power2_eq_square
    using vpos nd[unfolded d1_def power2_eq_square] by (rule fdiv_Fin_pos)
  show "fsub (Fin d1) (Fin v) = Fin (d1 - v)"
    by (rule fsub_Fin) (rule bound_weaken, rule in_range_bound[OF nd], rule bound_weaken, rule normal_bound[OF nv])
qed

section \<open>The pricer and the Greeks on values inside the range\<close>



lemma std_normal_pdf_pos: "0 < std_normal_pdf x"
  unfolding std_normal_pdf_def by simp

lemma std_normal_cdf_strict_mono:
  assumes "a < b"
  shows "std_normal_cdf a < std_normal_cdf b"
proof (rule DERIV_pos_imp_increasing[OF assms])
  fix x :: real
  show "\<exists>y. (std_normal_cdf has_real_derivative y) (at x) \<and> 0 < y"
    using std_normal_cdf_deriv[of x] std_normal_pdf_pos[of x] by blast
qed

lemma std_normal_cdf_pos: "0 < std_normal_cdf x"
proof -
  have "0 \<le> std_normal_cdf (x - 1)" using std_normal_cdf_range[of "x - 1"] by simp
  also have "std_normal_cdf (x - 1) < std_normal_cdf x"
    by (rule std_normal_cdf_strict_mono) simp
  finally show ?thesis .
qed

lemma std_normal_cdf_less_1: "std_normal_cdf x < 1"
  using std_normal_cdf_pos[of "- x"] by (simp add: std_normal_cdf_symmetric)

lemma fneg_Fin_nonzero: "x \<noteq> 0 \<Longrightarrow> fneg (Fin x) = Fin (- x)"
  by simp

lemma norm_pdf_Fin: "normal (std_normal_pdf x) \<Longrightarrow> norm_pdf (Fin x) = Fin (std_normal_pdf x)"
  by (simp add: normal_to_float64)

lemma np_sqrt_Fin_pos: "0 < T \<Longrightarrow> np_sqrt (Fin T) = Fin (sqrt T)"
  by simp

lemma bound_sub:
  fixes a b :: real
  assumes "\<bar>a\<bar> \<le> 2 ^ 1000" "\<bar>b\<bar> \<le> 2 ^ 1000"
  shows "\<bar>a - b\<bar> \<le> 2 ^ 1002"
proof -
  have "\<bar>a - b\<bar> \<le> \<bar>a\<bar> + \<bar>b\<bar>" by simp
  also have "\<dots> \<le> 2 ^ 1000 + 2 ^ 1000" using assms by simp
  also have "\<dots> \<le> (2::real) ^ 1002" by simp
  finally show ?thesis .
qed

lemma calculate_greeks_Fin:
  fixes S K T r sigma :: real
  assumes pos: "0 < S" "0 < K" "0 < T" "0 < sigma"
    and rng: "d1_in_range S K T r sigma"
  defines "d1 \<equiv> (ln (S / K) + (r + 0.5 * sigma\<^sup>2) * T) / (sigma * sqrt T)"
  defines "d2 \<equiv> d1 - sigma * sqrt T"
  assumes gr: "greeks_in_range S K T r sigma d1 d2"
  defines "theta \<equiv> - (S * std_normal_pdf d1 * sigma) / (2 * sqrt T)
                     - r * K * exp (- r * T) * std_normal_cdf d2"
  shows "calculate_greeks (Fin S) (Fin K) (Fin T) (Fin r) (Fin sigma) option_type =
         Inr (if option_type = ''call'' then Fin (std_normal_cdf d1) else Fin (std_normal_cdf d1 - 1),
              Fin (std_normal_pdf d1 / (S * sigma * sqrt T)),
              if option_type = ''put'' then Fin (theta + r * K * exp (- r * T)) else Fin theta)"
proof -
  note f = first_line_Fin[OF pos rng]
  have dr: "discount_in_range T r"
    and c1: "in_range (std_normal_cdf d1)" and c2: "in_range (std_normal_cdf d2)"
    and np: "normal (std_normal_pdf d1)"
    and g1: "normal (S * sigma)" and g2: "normal (S * sigma * sqrt T)"
    and g3: "normal (std_normal_pdf d1 / (S * sigma * sqrt T))"
    and t1: "normal (S * std_normal_pdf d1)" and t2: "normal (S * std_normal_pdf d1 * sigma)"
    and t3: "normal (2 * sqrt T)"
    and t4: "normal (- (S * std_normal_pdf d1 * sigma) / (2 * sqrt T))"
    and u1: "in_range (r * K)" and u2: "in_range (r * K * exp (- r * T))"
    and u3: "in_range (r * K * exp (- r * T) * std_normal_cdf d2)"
    using gr unfolding greeks_in_range_def by simp_all
  have sT: "0 < sqrt T" using pos(3) by simp
  have cb: "\<bar>std_normal_cdf d1\<bar> \<le> 2 ^ 1002"
    by (rule bound_weaken, rule in_range_bound[OF c1])
  have one: "\<bar>1::real\<bar> \<le> 2 ^ 1002" by simp
  have dl: "fsub (Fin (std_normal_cdf d1)) (Fin 1) = Fin (std_normal_cdf d1 - 1)"
    by (rule fsub_Fin[OF cb one])
  have ga: "fmul (Fin S) (Fin sigma) = Fin (S * sigma)"
    by (rule fmul_Fin_nonzero[OF g1])
  have gb: "fmul (Fin (S * sigma)) (Fin (sqrt T)) = Fin (S * sigma * sqrt T)"
    by (rule fmul_Fin_nonzero[OF g2])
  have gpos: "0 < S * sigma * sqrt T" using pos by simp
  have gc: "fdiv (Fin (std_normal_pdf d1)) (Fin (S * sigma * sqrt T))
            = Fin (std_normal_pdf d1 / (S * sigma * sqrt T))"
    using gpos g3 by (intro fdiv_Fin_pos) (simp_all add: in_range_def)
  have ta: "fmul (Fin S) (Fin (std_normal_pdf d1)) = Fin (S * std_normal_pdf d1)"
    by (rule fmul_Fin_nonzero[OF t1])
  have tb: "fmul (Fin (S * std_normal_pdf d1)) (Fin sigma) = Fin (S * std_normal_pdf d1 * sigma)"
    by (rule fmul_Fin_nonzero[OF t2])
  have tc: "fneg (Fin (S * std_normal_pdf d1 * sigma)) = Fin (- (S * std_normal_pdf d1 * sigma))"
    by (rule fneg_Fin_nonzero[OF normal_nonzero[OF t2]])
  have td: "fmul (Fin 2) (Fin (sqrt T)) = Fin (2 * sqrt T)"
    by (rule fmul_Fin_nonzero[OF t3])
  have tpos: "0 < 2 * sqrt T" using sT by simp
  have te: "fdiv (Fin (- (S * std_normal_pdf d1 * sigma))) (Fin (2 * sqrt T))
            = Fin (- (S * std_normal_pdf d1 * sigma) / (2 * sqrt T))"
    using tpos t4 by (intro fdiv_Fin_pos) (simp_all add: in_range_def)
  have ua: "fmul (Fin r) (Fin K) = Fin (r * K)"
    using pos(2) u1 by (rule fmul_Fin_pos_right)
  have ub: "fmul (Fin (r * K)) (Fin (exp (- r * T))) = Fin (r * K * exp (- r * T))"
    by (rule fmul_Fin_pos_right[OF _ u2]) simp
  have uc: "fmul (Fin (r * K * exp (- r * T))) (Fin (std_normal_cdf d2))
            = Fin (r * K * exp (- r * T) * std_normal_cdf d2)"
    by (rule fmul_Fin_pos_right[OF std_normal_cdf_pos u3])
  have b4: "\<bar>- (S * std_normal_pdf d1 * sigma) / (2 * sqrt T)\<bar> \<le> 2 ^ 1000"
    by (rule normal_bound[OF t4])
  have b3: "\<bar>r * K * exp (- r * T) * std_normal_cdf d2\<bar> \<le> 2 ^ 1000"
    by (rule in_range_bound[OF u3])
  have th: "fsub (Fin (- (S * std_normal_pdf d1 * sigma) / (2 * sqrt T)))
                 (Fin (r * K * exp (- r * T) * std_normal_cdf d2)) = Fin theta"
    unfolding theta_def by (rule fsub_Fin[OF bound_weaken[OF b4] bound_weaken[OF b3]])
  have bt: "\<bar>theta\<bar> \<le> 2 ^ 1002" unfolding theta_def by (rule bound_sub[OF b4 b3])
  have tp: "fadd (Fin theta) (Fin (r * K * exp (- r * T))) = Fin (theta + r * K * exp (- r * T))"
    by (rule fadd_Fin[OF bt bound_weaken[OF in_range_bound[OF u2]]])
  show ?thesis
    apply (simp only: calculate_greeks_def f(1) f(2) sum.case Let_def)
    apply (simp only: f(3))
    apply (simp only: f(4) f(5))
    apply (simp only: d1_def[symmetric] d2_def[symmetric] norm_cdf_Fin[OF c1] norm_cdf_Fin[OF c2]
                      norm_pdf_Fin[OF np] discount_Fin[OF pos(3) dr] np_sqrt_Fin_pos[OF pos(3)])
    apply (simp only: dl ga ta ua td)
    apply (simp only: gb tb ub)
    apply (simp only: gc tc uc)
    apply (simp only: te)
    apply (simp only: th)
    apply (simp only: tp)
    done
qed

section \<open>Bounds on the exponential, the density and the distribution function\<close>

lemma scaled_by_minus: "scaled_by n (- x) = scaled_by n x"
  by (simp add: scaled_by_def)

lemma scaled_by_normal: "n \<le> 1000 \<Longrightarrow> scaled_by n x \<Longrightarrow> normal x"
  unfolding normal_def by (rule scaled_by_mono)

lemma scaled_by_in_range: "n \<le> 1000 \<Longrightarrow> scaled_by n x \<Longrightarrow> in_range x"
  unfolding in_range_def by (simp add: scaled_by_normal)

lemma scaled_by_between:
  assumes "1 / 2 ^ n \<le> x" "x \<le> 2 ^ n"
  shows "scaled_by n x"
proof -
  have "(0::real) < 1 / 2 ^ n" by simp
  then have "0 < x" using assms(1) by linarith
  then show ?thesis using assms by (simp add: scaled_by_def)
qed

lemma sqrt_two_pi_bounds: "2 \<le> sqrt (2 * pi)" "sqrt (2 * pi) \<le> 3"
proof -
  have "2\<^sup>2 \<le> 2 * pi" using pi_ge_two by simp
  then show "2 \<le> sqrt (2 * pi)" by (rule real_le_rsqrt)
  have "2 * pi \<le> 3\<^sup>2" using pi_less_4 by simp
  then show "sqrt (2 * pi) \<le> 3" by (intro real_le_lsqrt) simp_all
qed


lemma std_normal_cdf_ge_half:
  assumes "0 \<le> x"
  shows "1 / 2 \<le> std_normal_cdf x"
  unfolding std_normal_cdf_def using gauss_int_nonneg[OF assms] by simp


lemma scaled_by_cdf_nonneg:
  assumes "0 \<le> x"
  shows "scaled_by 1 (std_normal_cdf x)"
proof (rule scaled_by_between)
  show "1 / 2 ^ 1 \<le> std_normal_cdf x" using std_normal_cdf_ge_half[OF assms] by simp
  show "std_normal_cdf x \<le> 2 ^ 1" using std_normal_cdf_range[of x] by simp
qed


lemma scaled_by_exp_neg:
  assumes "0 \<le> x" "x \<le> 1 / 2"
  shows "scaled_by 1 (exp (- x))"
proof (rule scaled_by_between)
  have "1 + (- x) \<le> exp (- x)" by (rule exp_ge_add_one_self)
  then show "1 / 2 ^ 1 \<le> exp (- x)" using assms(2) by simp
  show "exp (- x) \<le> 2 ^ 1" using assms(1) by (simp add: order_trans[of _ 1])
qed

lemma scaled_by_pdf:
  assumes "x\<^sup>2 \<le> 1"
  shows "scaled_by 3 (std_normal_pdf x)"
proof (rule scaled_by_between)
  have e: "scaled_by 1 (exp (- (x\<^sup>2 / 2)))"
    by (rule scaled_by_exp_neg) (use assms in simp_all)
  then have lo: "1 / 2 \<le> exp (- (x\<^sup>2 / 2))" and hi: "exp (- (x\<^sup>2 / 2)) \<le> 2"
    by (simp_all add: scaled_by_def)
  have s: "0 < sqrt (2 * pi)" by simp
  have "(1::real) / 8 \<le> (1 / 2) / 3" by simp
  also have "\<dots> \<le> (1 / 2) / sqrt (2 * pi)"
    using sqrt_two_pi_bounds(2) s by (intro divide_left_mono) simp_all
  also have "\<dots> \<le> exp (- (x\<^sup>2 / 2)) / sqrt (2 * pi)"
    using lo s by (intro divide_right_mono) simp_all
  finally show "1 / 2 ^ 3 \<le> std_normal_pdf x" by (simp add: std_normal_pdf_def)
  have "exp (- (x\<^sup>2 / 2)) / sqrt (2 * pi) \<le> 2 / sqrt (2 * pi)"
    using hi s by (intro divide_right_mono) simp_all
  also have "\<dots> \<le> 2 / 2"
    using sqrt_two_pi_bounds(1) by (intro divide_left_mono) simp_all
  also have "\<dots> \<le> (2::real) ^ 3" by simp
  finally have "exp (- (x\<^sup>2 / 2)) / sqrt (2 * pi) \<le> 2 ^ 3" .
  then show "std_normal_pdf x \<le> 2 ^ 3" unfolding std_normal_pdf_def by simp
qed

section \<open>A scenario inside the range\<close>

text \<open>
  Spot and strike 100, one year to maturity, rate 0.05 and volatility 0.2, where
  \<open>d1 = 0.35\<close> and \<open>d2 = 0.15\<close>.
\<close>

lemma normal_numeral: "1 / 2 ^ 20 \<le> x \<Longrightarrow> x \<le> 2 ^ 20 \<Longrightarrow> normal x"
  by (rule scaled_by_normal[of 20]) (simp_all add: scaled_by_between)

lemma scenario_d1_in_range: "d1_in_range 100 100 1 0.05 0.2"
proof -
  have n: "normal 1" "normal 0.2" "normal 0.04" "normal 0.02" "normal 0.07" "normal 0.35"
    by (rule normal_numeral; simp)+
  show ?thesis
    unfolding d1_in_range_def in_range_def using n by (simp add: power2_eq_square)
qed

lemma scenario_discount_in_range: "discount_in_range 1 0.05"
proof -
  have "normal 0.05" by (rule normal_numeral; simp)
  moreover have "scaled_by 1 (exp (- 0.05))" by (rule scaled_by_exp_neg) simp_all
  then have "normal (exp (- 0.05))" by (rule scaled_by_normal[rotated]) simp
  ultimately show ?thesis unfolding discount_in_range_def in_range_def by simp
qed




lemma scenario_greeks_in_range: "greeks_in_range 100 100 1 0.05 0.2 0.35 0.15"
proof -
  have h: "scaled_by 7 100" by (rule scaled_by_between) simp_all
  have sg: "scaled_by 3 0.2" by (rule scaled_by_between) simp_all
  have two: "scaled_by 1 2" by (rule scaled_by_between) simp_all
  have tw: "scaled_by 5 20" by (rule scaled_by_between) simp_all
  have fv: "scaled_by 3 5" by (rule scaled_by_between) simp_all
  have c1: "scaled_by 1 (std_normal_cdf 0.35)" and c2: "scaled_by 1 (std_normal_cdf 0.15)"
    by (rule scaled_by_cdf_nonneg; simp)+
  have e: "scaled_by 1 (exp (- 0.05))" by (rule scaled_by_exp_neg) simp_all
  have pd: "scaled_by 3 (std_normal_pdf 0.35)"
    by (rule scaled_by_pdf) (simp add: power2_eq_square)
  have g3: "scaled_by (3 + 5) (std_normal_pdf 0.35 / 20)"
    by (rule scaled_by_divide[OF pd tw])
  have t1: "scaled_by (7 + 3) (100 * std_normal_pdf 0.35)"
    by (rule scaled_by_mult[OF h pd])
  have t2: "scaled_by (7 + 3 + 3) (100 * std_normal_pdf 0.35 * 0.2)"
    by (rule scaled_by_mult[OF t1 sg])
  have "scaled_by (7 + 3 + 3) (- (100 * std_normal_pdf 0.35 * 0.2))"
    using t2 by (simp only: scaled_by_minus)
  then have t4: "scaled_by (7 + 3 + 3 + 1) (- (100 * std_normal_pdf 0.35 * 0.2) / 2)"
    by (rule scaled_by_divide[OF _ two])
  have u2: "scaled_by (3 + 1) (5 * exp (- 0.05))"
    by (rule scaled_by_mult[OF fv e])
  have u3: "scaled_by (3 + 1 + 1) (5 * exp (- 0.05) * std_normal_cdf 0.15)"
    by (rule scaled_by_mult[OF u2 c2])
  have n: "normal 20" "normal 2" "normal 5"
    by (rule normal_numeral; simp)+
  have "in_range (std_normal_cdf 0.35)" "in_range (std_normal_cdf 0.15)"
    by (rule scaled_by_in_range[OF _ c1] scaled_by_in_range[OF _ c2]; simp)+
  moreover have "normal (std_normal_pdf 0.35)" by (rule scaled_by_normal[OF _ pd]) simp
  moreover have "normal (std_normal_pdf 0.35 / 20)" by (rule scaled_by_normal[OF _ g3]) simp
  moreover have "normal (100 * std_normal_pdf 0.35)" by (rule scaled_by_normal[OF _ t1]) simp
  moreover have "normal (100 * std_normal_pdf 0.35 * 0.2)" by (rule scaled_by_normal[OF _ t2]) simp
  moreover have "normal (- (100 * std_normal_pdf 0.35 * 0.2) / 2)" by (rule scaled_by_normal[OF _ t4]) simp
  moreover have "in_range (5 * exp (- 0.05))" by (rule scaled_by_in_range[OF _ u2]) simp
  moreover have "in_range (5 * exp (- 0.05) * std_normal_cdf 0.15)" by (rule scaled_by_in_range[OF _ u3]) simp
  ultimately show ?thesis
    unfolding greeks_in_range_def using scenario_discount_in_range n
    by (simp add: in_range_def)
qed

section \<open>The payoff curve on values inside the range\<close>

lemma length_np_linspace: "length (np_linspace start stop num) = num"
  by (simp add: np_linspace_def Let_def)

lemma payoff_points_spots:
  "map fst (payoff_points S K price option_type num) = np_linspace (fmul S (Fin 0.5)) (fmul S (Fin 1.5)) num"
  by (simp add: payoff_points_def Let_def length_np_linspace)

lemma length_payoff_points: "length (payoff_points S K price option_type num) = num"
  by (simp add: payoff_points_def Let_def length_np_linspace)

lemma pow_1001_le: "(2::real) ^ 1001 \<le> 2 ^ 1002" "(2::real) ^ 1001 \<le> 2 ^ 1020"
  by (rule power_increasing; simp)+

lemma np_linspace_Fin:
  fixes a b :: real
  assumes a: "0 < a" and ab: "a < b" and b: "b \<le> 2 ^ 1001" and n: "2 \<le> n"
    and h: "1 / 2 ^ 1020 \<le> (b - a) / real (n - 1)"
  shows "np_linspace (Fin a) (Fin b) n = map (\<lambda>i. Fin (a + real i * ((b - a) / real (n - 1)))) [0..<n]"
proof -
  define h where "h = (b - a) / real (n - 1)"
  have n1: "0 < real (n - 1)" "0 < n - 1" "1 < n" "1 \<le> real (n - 1)" using n by simp_all
  have hpos: "0 < h" unfolding h_def using ab n1(1) by simp
  have hlo: "1 / 2 ^ 1020 \<le> h" using assms(5) unfolding h_def .
  have e: "real (n - 1) * h = b - a" unfolding h_def using n1(1) by simp
  have ba: "b - a \<le> 2 ^ 1001" using a b by linarith
  have ih: "real i * h \<le> b - a" if "i < n" for i
  proof -
    have "real i \<le> real (n - 1)" using that by simp
    then have "real i * h \<le> real (n - 1) * h" using hpos by (intro mult_right_mono) simp_all
    then show ?thesis using e by simp
  qed
  have hle: "h \<le> b - a" using ih[of 1] n1(3) by simp
  have fs: "fsub (Fin b) (Fin a) = Fin (b - a)"
    by (rule fsub_Fin) (use a ab b pow_1001_le(1) in linarith)+
  have "to_float64 h = Fin h"
    by (rule to_float64_Fin) (use hpos hlo hle ba pow_1001_le(2) in simp_all)
  then have step: "fdiv (Fin (b - a)) (Fin (real (n - 1))) = Fin h"
    unfolding fdiv_def h_def using ab n1(1) by simp
  have z: "is_zero (Fin h) = False" using hpos by simp
  have el: "fadd (fmul (Fin (real i)) (Fin h)) (Fin a) = Fin (a + real i * h)" if "i < n" for i
  proof -
    have m: "fmul (Fin (real i)) (Fin h) = Fin (real i * h)"
    proof (cases "i = 0")
      case True
      then show ?thesis unfolding fmul_def zero_of_def using hpos by simp
    next
      case False
      then have "1 \<le> real i" by simp
      then have "1 * h \<le> real i * h" using hpos by (intro mult_right_mono) simp_all
      then have "h \<le> real i * h" by (simp only: mult_1)
      with hlo have lo: "1 / 2 ^ 1020 \<le> real i * h" by (rule order_trans)
      have "real i * h \<le> 2 ^ 1020" using ih[OF that] ba pow_1001_le(2) by linarith
      then have "to_float64 (real i * h) = Fin (real i * h)"
        using lo hpos by (intro to_float64_Fin) simp_all
      then show ?thesis unfolding fmul_def using False hpos by simp
    qed
    have "0 \<le> real i * h" using hpos by simp
    then have "\<bar>real i * h\<bar> \<le> 2 ^ 1002" using ih[OF that] ba pow_1001_le(1) by linarith
    moreover have "\<bar>a\<bar> \<le> 2 ^ 1002" using a ab b pow_1001_le(1) by linarith
    ultimately have "fadd (Fin (real i * h)) (Fin a) = Fin (real i * h + a)" by (rule fadd_Fin)
    then show ?thesis unfolding m by (simp add: add.commute)
  qed
  let ?f = "\<lambda>i. Fin (a + real i * h)"
  have "np_linspace (Fin a) (Fin b) n =
        (map (\<lambda>i. fadd (fmul (Fin (real i)) (Fin h)) (Fin a)) [0..<n])[n - 1 := Fin b]"
    unfolding np_linspace_def Let_def fs step z
    using n1(2,3) by (simp only: if_True if_False)
  also have "map (\<lambda>i. fadd (fmul (Fin (real i)) (Fin h)) (Fin a)) [0..<n] = map ?f [0..<n]"
    by (rule map_cong[OF refl]) (simp add: el)
  also have "(map ?f [0..<n])[n - 1 := Fin b] = (map ?f [0..<n])[n - 1 := (map ?f [0..<n]) ! (n - 1)]"
    using n1(3) e by simp
  also have "\<dots> = map ?f [0..<n]"
    by (rule list_update_id)
  finally show ?thesis unfolding h_def .
qed

lemma sorted_wrt_flt_affine:
  assumes "0 < h"
  shows "sorted_wrt flt (map (\<lambda>i. Fin (a + real i * h)) [0..<n])"
proof -
  have "sorted_wrt (\<lambda>i j. flt (Fin (a + real i * h)) (Fin (a + real j * h))) [0..<n]"
  proof (rule sorted_wrt_mono_rel[OF _ sorted_wrt_upt])
    fix i j :: nat
    assume "i < j"
    then have "real i * h < real j * h" using assms by simp
    then show "flt (Fin (a + real i * h)) (Fin (a + real j * h))"
      by (simp add: flt_def)
  qed
  then show ?thesis by (simp add: sorted_wrt_map)
qed



lemma spot_range_Fin:
  fixes S :: real
  assumes S: "0 < S" "normal S" and num: "2 \<le> num" and step: "1 / 2 ^ 1020 \<le> S / real (num - 1)"
  shows "fmul (Fin S) (Fin 0.5) = Fin (S * 0.5)"
    and "fmul (Fin S) (Fin 1.5) = Fin (S * 1.5)"
    and "np_linspace (Fin (S * 0.5)) (Fin (S * 1.5)) num =
         map (\<lambda>i. Fin (S * 0.5 + real i * ((S * 1.5 - S * 0.5) / real (num - 1)))) [0..<num]"
    and "S * 1.5 \<le> 2 ^ 1001"
proof -
  have Shi: "S \<le> 2 ^ 1000"
    using S unfolding normal_def scaled_by_def by simp
  have sS: "scaled_by 1000 S" using S(2) unfolding normal_def .
  have c: "scaled_by 1 (0.5::real)" "scaled_by 1 (1.5::real)"
    by (rule scaled_by_between; simp)+
  have "to_float64 (S * 0.5) = Fin (S * 0.5)"
    by (rule scaled_by_to_float64[OF _ scaled_by_mult[OF sS c(1)]]) simp
  moreover have "to_float64 (S * 1.5) = Fin (S * 1.5)"
    by (rule scaled_by_to_float64[OF _ scaled_by_mult[OF sS c(2)]]) simp
  ultimately show "fmul (Fin S) (Fin 0.5) = Fin (S * 0.5)" and "fmul (Fin S) (Fin 1.5) = Fin (S * 1.5)"
    unfolding fmul_def using S(1) by simp_all
  have a: "0 < S * 0.5" and ab: "S * 0.5 < S * 1.5" using S(1) by simp_all
  have "S * 1.5 \<le> 2 ^ 1000 * 2" using Shi by simp
  then show b: "S * 1.5 \<le> 2 ^ 1001" by simp
  have "S * 1.5 - S * 0.5 = S" by simp
  then have h: "1 / 2 ^ 1020 \<le> (S * 1.5 - S * 0.5) / real (num - 1)" using step by simp
  show "np_linspace (Fin (S * 0.5)) (Fin (S * 1.5)) num =
        map (\<lambda>i. Fin (S * 0.5 + real i * ((S * 1.5 - S * 0.5) / real (num - 1)))) [0..<num]"
    by (rule np_linspace_Fin[OF a ab b num h])
qed


section \<open>Delta and Gamma when the distribution function or the density underflows\<close>

lemma to_float64_unit:
  assumes "0 < x" "x \<le> 1"
  shows "to_float64 x = Fin x \<or> to_float64 x = Fin 0"
proof -
  have "(1::real) \<le> 2 ^ 1020" by simp
  then have "\<not> overflow_threshold \<le> \<bar>x\<bar>"
    using overflow_threshold_gt assms by linarith
  then show ?thesis unfolding to_float64_def zero_of_def using assms(1) by simp
qed

lemma norm_cdf_unit: "\<exists>x. norm_cdf (Fin d) = Fin x \<and> 0 \<le> x \<and> x \<le> 1"
proof -
  have p: "0 < std_normal_cdf d" "std_normal_cdf d \<le> 1"
    using std_normal_cdf_pos[of d] std_normal_cdf_range[of d] by simp_all
  from to_float64_unit[OF p] show ?thesis using p by auto
qed

lemma std_normal_pdf_le_1: "std_normal_pdf x \<le> 1"
proof -
  have "exp (- (x\<^sup>2) / 2) / sqrt (2 * pi) \<le> 1 / sqrt (2 * pi)"
    by (intro divide_right_mono) simp_all
  also have "\<dots> \<le> 1 / 2"
    using sqrt_two_pi_bounds(1) by (intro divide_left_mono) simp_all
  also have "\<dots> \<le> (1::real)" by simp
  finally show ?thesis unfolding std_normal_pdf_def .
qed

lemma gamma_Fin:
  assumes y: "0 < y" "normal y"
  shows "\<exists>g. fdiv (norm_pdf (Fin d)) (Fin y) = Fin g"
proof -
  have p: "0 < std_normal_pdf d" "std_normal_pdf d \<le> 1"
    using std_normal_pdf_pos[of d] std_normal_pdf_le_1[of d] by simp_all
  have ylo: "1 / 2 ^ 1000 \<le> y" using y unfolding normal_def scaled_by_def by simp
  from to_float64_unit[OF p] show ?thesis
  proof
    assume e: "to_float64 (std_normal_pdf d) = Fin (std_normal_pdf d)"
    have q0: "0 < std_normal_pdf d / y" using p(1) y(1) by simp
    have "std_normal_pdf d / y \<le> 1 / (1 / 2 ^ 1000)"
      using p ylo by (intro frac_le) simp_all
    then have "std_normal_pdf d / y \<le> 2 ^ 1000" by simp
    moreover have "(2::real) ^ 1000 \<le> 2 ^ 1020" by (rule power_increasing) simp_all
    ultimately have "\<not> overflow_threshold \<le> \<bar>std_normal_pdf d / y\<bar>"
      using overflow_threshold_gt q0 by linarith
    then have "to_float64 (std_normal_pdf d / y) = Fin (std_normal_pdf d / y) \<or>
               to_float64 (std_normal_pdf d / y) = Fin 0"
      unfolding to_float64_def zero_of_def using q0 by simp
    then show ?thesis
      unfolding fdiv_def using e p(1) y(1) by auto
  next
    assume "to_float64 (std_normal_pdf d) = Fin 0"
    then show ?thesis unfolding fdiv_def zero_of_def using y(1) by simp
  qed
qed

section \<open>At the ends of the range\<close>

lemma fadd_NaN: "fadd NaN x = NaN" "fadd x NaN = NaN"
  by (cases x; simp)+

lemma fsub_NaN: "fsub NaN x = NaN" "fsub x NaN = NaN"
  by (cases x; simp add: fsub_def fadd_NaN)+

lemma fmul_NaN: "fmul NaN x = NaN" "fmul x NaN = NaN"
  by (simp_all add: fmul_def)

lemma fdiv_NaN: "fdiv NaN x = NaN" "fdiv x NaN = NaN"
  by (simp_all add: fdiv_def)


lemma to_float64_underflow:
  assumes "0 \<le> x" "x \<le> 1 / 2 ^ 1075"
  shows "to_float64 x = Fin 0"
proof -
  have "(1::real) / 2 ^ 1075 \<le> 1" by simp
  moreover have "(1::real) \<le> 2 ^ 1020" by simp
  ultimately have "\<not> overflow_threshold \<le> \<bar>x\<bar>"
    using overflow_threshold_gt assms by linarith
  then show ?thesis
    unfolding to_float64_def zero_of_def underflow_threshold_def using assms by simp
qed

lemma to_float64_overflow:
  assumes "2 ^ 1024 \<le> x"
  shows "to_float64 x = PInf"
proof -
  have "overflow_threshold \<le> 2 ^ 1024" unfolding overflow_threshold_def by simp
  then have "overflow_threshold \<le> \<bar>x\<bar>" using assms by linarith
  moreover have "\<not> x < 0" using assms by (simp add: order_trans[of 0 "2 ^ 1024" x] not_less)
  ultimately show ?thesis unfolding to_float64_def inf_of_def by simp
qed

lemma to_float64_large:
  assumes "1 \<le> x" "x \<le> 2 ^ 1023"
  shows "to_float64 x = Fin x"
proof -
  have "(2::real) ^ 1023 < 2 ^ 1024 - 2 ^ 970" by simp
  then have "\<not> overflow_threshold \<le> \<bar>x\<bar>" unfolding overflow_threshold_def using assms by linarith
  moreover have "underflow_threshold < 1" unfolding underflow_threshold_def by simp
  then have "\<not> \<bar>x\<bar> \<le> underflow_threshold" using assms(1) by linarith
  ultimately show ?thesis unfolding to_float64_def by simp
qed

lemma to_float64_numeral: "1 / 2 ^ 20 \<le> x \<Longrightarrow> x \<le> 2 ^ 20 \<Longrightarrow> to_float64 x = Fin x"
  by (rule normal_to_float64) (rule normal_numeral)

lemma square_overflow_2_512: "overflow_threshold \<le> 2 ^ 512 * 2 ^ 512"
  unfolding overflow_threshold_def by simp


lemma calculate_greeks_overflow:
  assumes "\<not> is_zero K" "overflow_threshold \<le> x * x"
  shows "calculate_greeks S K T r (Fin x) option_type = Inl OverflowError"
  using assms by (simp add: calculate_greeks_def py_truediv_def py_square_def)

lemma py_square_cases:
  "(py_square sigma = Inl OverflowError) = (\<exists>x. sigma = Fin x \<and> overflow_threshold \<le> x * x)"
  "py_square sigma \<noteq> Inl ZeroDivisionError"
  by (cases sigma; simp add: py_square_def)+

lemma py_square_Inr:
  "(\<exists>sq. py_square sigma = Inr sq) = (\<not> (\<exists>x. sigma = Fin x \<and> overflow_threshold \<le> x * x))"
  by (cases sigma; simp add: py_square_def)



lemma sqrt_inverse_power: "sqrt (1 / 2 ^ 1000) = 1 / 2 ^ 500"
proof (rule real_sqrt_unique)
  have "((1::real) / 2 ^ 500)\<^sup>2 = 1 / (2 ^ 500)\<^sup>2" by (simp only: power_divide power_one)
  also have "((2::real) ^ 500)\<^sup>2 = 2 ^ 1000" by (simp only: power_mult[symmetric]) simp
  finally show "((1::real) / 2 ^ 500)\<^sup>2 = 1 / 2 ^ 1000" .
  show "(0::real) \<le> 1 / 2 ^ 500" by simp
qed

lemma np_linspace_inf_first:
  fixes a :: real
  assumes "0 < a" "2 < n"
  shows "np_linspace (Fin a) PInf n ! 0 = NaN"
proof -
  have n1: "0 < n - 1" "1 < n" "0 < n" "n - 1 \<noteq> 0" using assms(2) by simp_all
  have d: "fsub PInf (Fin a) = PInf" using assms(1) by (simp add: fsub_def)
  have st: "fdiv PInf (Fin (real (n - 1))) = PInf"
    using n1 by (simp add: fdiv_def inf_of_def)
  have z: "fadd (fmul (Fin (real 0)) PInf) (Fin a) = NaN"
    by (simp add: fmul_def fadd_NaN)
  have "np_linspace (Fin a) PInf n =
        (map (\<lambda>i. fadd (fmul (Fin (real i)) PInf) (Fin a)) [0..<n])[n - 1 := PInf]"
    unfolding np_linspace_def Let_def d st
    using n1(1,2) by (simp only: if_True if_False is_zero.simps)
  then have "np_linspace (Fin a) PInf n ! 0 =
             (map (\<lambda>i. fadd (fmul (Fin (real i)) PInf) (Fin a)) [0..<n])[n - 1 := PInf] ! 0"
    by (rule arg_cong)
  also have "\<dots> = map (\<lambda>i. fadd (fmul (Fin (real i)) PInf) (Fin a)) [0..<n] ! 0"
    by (rule nth_list_update_neq[OF n1(4)])
  also have "\<dots> = fadd (fmul (Fin (real 0)) PInf) (Fin a)"
    using n1(3) by (simp only: nth_map_upt) simp
  finally show ?thesis unfolding z .
qed

lemma large_spot_range:
  "fmul (Fin (3 * 2 ^ 1022)) (Fin 0.5) = Fin (3 * 2 ^ 1021)"
  "fmul (Fin (3 * 2 ^ 1022)) (Fin 1.5) = PInf"
proof -
  have "to_float64 (3 * 2 ^ 1021) = Fin (3 * 2 ^ 1021)" by (rule to_float64_large) simp_all
  then show "fmul (Fin (3 * 2 ^ 1022)) (Fin 0.5) = Fin (3 * 2 ^ 1021)" by (simp add: fmul_def)
  have "to_float64 (3 * 2 ^ 1022 * 1.5) = PInf" by (rule to_float64_overflow) simp
  then show "fmul (Fin (3 * 2 ^ 1022)) (Fin 1.5) = PInf" by (simp add: fmul_def)
qed


section \<open>The claims\<close>




text \<open>
  C2. The claim that every operation rejects a violated precondition with an
  InvalidParameter error does not hold: at time to maturity 0 (spot = strike = 100,
  rate 0.05, volatility 0.2) both \<open>black_scholes\<close> and \<open>calculate_greeks\<close> return
  normally, and every component of the result is NaN (\<open>d1\<close> is \<open>0 / 0\<close>).
\<close>

theorem zero_maturity_returns_nan:
  "black_scholes (Fin 100) (Fin 100) (Fin 0) (Fin 0.05) (Fin 0.2) ''call'' = Inr (NaN, NaN, NaN) \<and>
   calculate_greeks (Fin 100) (Fin 100) (Fin 0) (Fin 0.05) (Fin 0.2) ''call'' = Inr (NaN, NaN, NaN)"
proof -
  have "to_float64 (100 / 100) = Fin 1" using to_float64_numeral[of 1] by simp
  then have q: "py_truediv (Fin 100) (Fin 100) = Inr (Fin 1)"
    by (simp add: py_truediv_def fdiv_def)
  have "normal (0.2 * 0.2)" by (rule normal_numeral) simp_all
  then have sq: "py_square (Fin 0.2) = Inr (Fin (0.2 * 0.2))" by (rule py_square_Fin)
  have "to_float64 (0.5 * (0.2 * 0.2)) = Fin 0.02" using to_float64_numeral[of "0.02"] by simp
  then have a: "fmul (Fin 0.5) (Fin (0.2 * 0.2)) = Fin 0.02" by (simp add: fmul_def)
  have b: "fadd (Fin 0.05) (Fin 0.02) = Fin 0.07" by (simp add: sum_to_float64_Fin)
  have c: "fmul (Fin 0.07) (Fin 0) = Fin 0" by (simp add: fmul_def zero_of_def)
  have l: "fadd (np_log (Fin 1)) (Fin 0) = Fin 0" by (simp add: sum_to_float64_Fin)
  have num: "fadd (np_log (Fin 1)) (fmul (fadd (Fin 0.05) (fmul (Fin 0.5) (Fin (0.2 * 0.2)))) (Fin 0)) = Fin 0"
    by (simp only: a b c l)
  have den: "fmul (Fin 0.2) (np_sqrt (Fin 0)) = Fin 0"
    by (simp add: fmul_def zero_of_def)
  have d1: "fdiv (Fin 0) (Fin 0) = NaN"
    by (simp add: fdiv_def)
  show ?thesis
    unfolding black_scholes_def calculate_greeks_def q sq sum.case Let_def num den d1
    by (simp add: fsub_NaN fmul_NaN fdiv_NaN fadd_NaN)
qed

text \<open>
  C2, as the code has it. No operation validates its parameters. The pricer and the
  Greeks raise Python's ZeroDivisionError exactly when the strike is a zero, and Python's
  OverflowError exactly when the strike is not a zero and the volatility is a finite
  number whose square overflows (\<open>\<sigma>\<^sup>2 \<ge> 2\<^sup>1\<^sup>0\<^sup>2\<^sup>4 - 2\<^sup>9\<^sup>7\<^sup>0\<close>). On every other input they
  return a triple, whatever the option type and whether or not the parameters are
  positive, finite or numbers at all. The payoff curve never raises and always has 100
  points.
\<close>

theorem raised_errors:
  "(black_scholes S K T r sigma option_type = Inl ZeroDivisionError) = is_zero K \<and>
   (black_scholes S K T r sigma option_type = Inl OverflowError) =
     (\<not> is_zero K \<and> (\<exists>x. sigma = Fin x \<and> overflow_threshold \<le> x * x)) \<and>
   (\<exists>res. black_scholes S K T r sigma option_type = Inr res) =
     (\<not> is_zero K \<and> \<not> (\<exists>x. sigma = Fin x \<and> overflow_threshold \<le> x * x)) \<and>
   (calculate_greeks S K T r sigma option_type = Inl ZeroDivisionError) = is_zero K \<and>
   (calculate_greeks S K T r sigma option_type = Inl OverflowError) =
     (\<not> is_zero K \<and> (\<exists>x. sigma = Fin x \<and> overflow_threshold \<le> x * x)) \<and>
   (\<exists>res. calculate_greeks S K T r sigma option_type = Inr res) =
     (\<not> is_zero K \<and> \<not> (\<exists>x. sigma = Fin x \<and> overflow_threshold \<le> x * x)) \<and>
   length (payoff_curve S K price option_type) = 100"
proof (cases "py_square sigma")
  case (Inl e)
  then have e: "e = OverflowError" using py_square_cases(2)[of sigma] by (cases e) simp_all
  have o: "\<exists>x. sigma = Fin x \<and> overflow_threshold \<le> x * x"
    using Inl e py_square_cases(1)[of sigma] by simp
  show ?thesis
    using o Inl e
    by (simp add: black_scholes_def calculate_greeks_def py_truediv_def Let_def payoff_curve_def
                  length_payoff_points)
next
  case (Inr sq)
  then have o: "\<not> (\<exists>x. sigma = Fin x \<and> overflow_threshold \<le> x * x)"
    using py_square_Inr[of sigma] by blast
  show ?thesis
    using o Inr
    by (simp add: black_scholes_def calculate_greeks_def py_truediv_def Let_def payoff_curve_def
                  length_payoff_points)
qed










text \<open>
  C6. The claim that the spot values of every payoff curve are strictly increasing does
  not hold at the upper end of the range of the doubles: with spot \<open>1.5 \<times> 2\<^sup>1\<^sup>0\<^sup>2\<^sup>3\<close> the
  first spot value is NaN, which is below no other value (the other 99 are infinite).
\<close>

theorem large_spot_not_increasing:
  "\<not> sorted_wrt flt (map fst (payoff_curve (Fin (3 * 2 ^ 1022)) (Fin 100) (Fin 10) ''call''))"
proof
  assume "sorted_wrt flt (map fst (payoff_curve (Fin (3 * 2 ^ 1022)) (Fin 100) (Fin 10) ''call''))"
  then have "sorted_wrt flt (np_linspace (Fin (3 * 2 ^ 1021)) PInf 100)"
    unfolding payoff_curve_def payoff_points_spots large_spot_range .
  from this[unfolded sorted_wrt_iff_nth_less length_np_linspace, rule_format, of 0 1]
  have "flt (np_linspace (Fin (3 * 2 ^ 1021)) PInf 100 ! 0) (np_linspace (Fin (3 * 2 ^ 1021)) PInf 100 ! 1)"
    by simp
  moreover have "np_linspace (Fin (3 * 2 ^ 1021)) PInf 100 ! 0 = NaN"
    by (rule np_linspace_inf_first) simp_all
  ultimately show False by (simp add: flt_def)
qed

text \<open>
  C6, as the code has it. For a spot between \<open>2\<^sup>-\<^sup>1\<^sup>0\<^sup>0\<^sup>0\<close> and \<open>2\<^sup>1\<^sup>0\<^sup>0\<^sup>0\<close> and a number of points
  \<open>num \<ge> 2\<close> whose step \<open>S / (num - 1)\<close> does not underflow (it is at least \<open>2\<^sup>-\<^sup>1\<^sup>0\<^sup>2\<^sup>0\<close>),
  the spot values of \<open>payoff_points\<close> are strictly increasing, and the curve has
  exactly \<open>num\<close> entries, whatever the strike, the premium and the option type; the code
  fixes \<open>num\<close> at 100.
\<close>

theorem payoff_curve_increasing:
  fixes S :: real
  assumes "0 < S" "normal S" "2 \<le> num" "1 / 2 ^ 1020 \<le> S / real (num - 1)"
  shows "sorted_wrt flt (map fst (payoff_points (Fin S) K price option_type num)) \<and>
         length (payoff_points (Fin S) K price option_type num) = num"
proof -
  note sr = spot_range_Fin[OF assms]
  have "0 < real (num - 1)" using assms(3) by simp
  then have h: "0 < (S * 1.5 - S * 0.5) / real (num - 1)" using assms(1) by simp
  have "map fst (payoff_points (Fin S) K price option_type num) =
        map (\<lambda>i. Fin (S * 0.5 + real i * ((S * 1.5 - S * 0.5) / real (num - 1)))) [0..<num]"
    by (simp only: payoff_points_spots sr(1,2,3))
  then show ?thesis
    using sorted_wrt_flt_affine[OF h] by (simp add: length_payoff_points)
qed

theorem payoff_curve_increasing_witness:
  "normal 100 \<and>
   sorted_wrt flt (map fst (payoff_curve (Fin 100) (Fin 100) (Fin 10) ''call'')) \<and>
   length (payoff_curve (Fin 100) (Fin 100) (Fin 10) ''call'') = 100"
proof -
  have n: "normal 100" by (rule normal_numeral) simp_all
  show ?thesis
    using payoff_curve_increasing[of 100 100 "Fin 100" "Fin 10" "''call''"] n
    by (simp add: payoff_curve_def)
qed

text \<open>
  C7. The claim that Delta lies in \<open>[0, 1]\<close> for a call and in \<open>[-1, 0]\<close> for a put on
  every valid input does not hold at the lower end of the range of the doubles: with time
  to maturity \<open>2\<^sup>-\<^sup>1\<^sup>0\<^sup>0\<^sup>0\<close> and volatility \<open>2\<^sup>-\<^sup>6\<^sup>0\<^sup>0\<close> (spot = strike = 100, rate 0) the
  product \<^verbatim>\<open>sigma * np.sqrt(T)\<close> underflows to zero, \<open>d1\<close> is \<open>0 / 0\<close>, and Delta, Gamma
  and Theta are NaN, for a call and for a put.
\<close>

theorem underflowing_d1_delta_nan:
  "calculate_greeks (Fin 100) (Fin 100) (Fin (1 / 2 ^ 1000)) (Fin 0) (Fin (1 / 2 ^ 600)) ''call'' =
     Inr (NaN, NaN, NaN) \<and>
   calculate_greeks (Fin 100) (Fin 100) (Fin (1 / 2 ^ 1000)) (Fin 0) (Fin (1 / 2 ^ 600)) ''put'' =
     Inr (NaN, NaN, NaN)"
proof -
  let ?a = "(1::real) / 2 ^ 600"
  let ?T = "(1::real) / 2 ^ 1000"
  have "to_float64 (100 / 100) = Fin 1" using to_float64_numeral[of 1] by simp
  then have q: "py_truediv (Fin 100) (Fin 100) = Inr (Fin 1)"
    by (simp add: py_truediv_def fdiv_def)
  have u: "to_float64 (?a * ?a) = Fin 0" by (rule to_float64_underflow) simp_all
  have "\<not> overflow_threshold \<le> ?a * ?a" unfolding overflow_threshold_def by simp
  then have sq: "py_square (Fin ?a) = Inr (Fin 0)" using u by (simp add: py_square_def)
  have a: "fmul (Fin 0.5) (Fin 0) = Fin 0" by (simp add: fmul_def zero_of_def)
  have b: "fadd (Fin 0) (Fin 0) = Fin 0" by (simp add: sum_to_float64_Fin)
  have c: "fmul (Fin 0) (Fin ?T) = Fin 0" by (simp add: fmul_def zero_of_def)
  have l: "np_log (Fin 1) = Fin 0" by simp
  have s: "np_sqrt (Fin ?T) = Fin (1 / 2 ^ 500)" by (simp only: np_sqrt.simps sqrt_inverse_power) simp
  have "to_float64 (?a * (1 / 2 ^ 500)) = Fin 0" by (rule to_float64_underflow) simp_all
  then have den: "fmul (Fin ?a) (Fin (1 / 2 ^ 500)) = Fin 0" by (simp add: fmul_def)
  have d1: "fdiv (Fin 0) (Fin 0) = NaN" by (simp add: fdiv_def)
  have "calculate_greeks (Fin 100) (Fin 100) (Fin ?T) (Fin 0) (Fin ?a) option_type = Inr (NaN, NaN, NaN)"
    for option_type
    apply (simp only: calculate_greeks_def q sq sum.case Let_def s)
    apply (simp only: a den)
    apply (simp only: b)
    apply (simp only: c l)
    apply (simp only: b)
    apply (simp only: d1)
    apply (simp add: fsub_NaN fmul_NaN fdiv_NaN fadd_NaN)
    done
  then show ?thesis by simp
qed

text \<open>
  C7, as the code has it. For spot, strike, time to maturity and volatility positive and
  the intermediate values of \<open>d1\<close> inside the range (\<open>d1_in_range\<close>), \<open>calculate_greeks\<close>
  returns a finite Delta, in \<open>[0, 1]\<close> for a call and in \<open>[-1, 0]\<close> for a put (also when
  \<open>\<Phi>(d1)\<close> underflows to zero).
\<close>

theorem delta_bounds:
  fixes S K T r sigma :: real
  assumes "0 < S" "0 < K" "0 < T" "0 < sigma"
    and "d1_in_range S K T r sigma"
  shows "\<exists>dc gc tc dp gp tp.
           calculate_greeks (Fin S) (Fin K) (Fin T) (Fin r) (Fin sigma) ''call'' = Inr (Fin dc, gc, tc) \<and>
           calculate_greeks (Fin S) (Fin K) (Fin T) (Fin r) (Fin sigma) ''put'' = Inr (Fin dp, gp, tp) \<and>
           0 \<le> dc \<and> dc \<le> 1 \<and> - 1 \<le> dp \<and> dp \<le> 0"
proof -
  define d1 where "d1 = (ln (S / K) + (r + 0.5 * sigma\<^sup>2) * T) / (sigma * sqrt T)"
  note f = first_line_Fin[OF assms]
  obtain x where x: "norm_cdf (Fin d1) = Fin x" "0 \<le> x" "x \<le> 1"
    using norm_cdf_unit[of d1] by blast
  have "\<bar>x\<bar> \<le> 2 ^ 1002" using x(2,3) by (simp add: order_trans[of x 1])
  moreover have "\<bar>1::real\<bar> \<le> 2 ^ 1002" by simp
  ultimately have s: "fsub (Fin x) (Fin 1) = Fin (x - 1)" by (rule fsub_Fin)
  have call: "\<exists>gc tc. calculate_greeks (Fin S) (Fin K) (Fin T) (Fin r) (Fin sigma) ''call'' = Inr (Fin x, gc, tc)"
    apply (simp only: calculate_greeks_def f(1) f(2) sum.case Let_def)
    apply (simp only: f(3))
    apply (simp only: f(4))
    apply (simp only: d1_def[symmetric] x(1))
    apply simp
    done
  have put: "\<exists>gp tp. calculate_greeks (Fin S) (Fin K) (Fin T) (Fin r) (Fin sigma) ''put'' = Inr (Fin (x - 1), gp, tp)"
    apply (simp only: calculate_greeks_def f(1) f(2) sum.case Let_def)
    apply (simp only: f(3))
    apply (simp only: f(4))
    apply (simp only: d1_def[symmetric] x(1) s)
    apply simp
    done
  have "- 1 \<le> x - 1" "x - 1 \<le> 0" using x(2,3) by simp_all
  with call put x(2,3) show ?thesis by blast
qed

theorem delta_bounds_witness:
  "d1_in_range 100 100 1 0.05 0.2 \<and>
   (\<exists>dc gc tc dp gp tp.
     calculate_greeks (Fin 100) (Fin 100) (Fin 1) (Fin 0.05) (Fin 0.2) ''call'' = Inr (Fin dc, gc, tc) \<and>
     calculate_greeks (Fin 100) (Fin 100) (Fin 1) (Fin 0.05) (Fin 0.2) ''put'' = Inr (Fin dp, gp, tp) \<and>
     0 \<le> dc \<and> dc \<le> 1 \<and> - 1 \<le> dp \<and> dp \<le> 0)"
  using delta_bounds[of 100 100 1 "0.2" "0.05"] scenario_d1_in_range
  by simp

text \<open>
  C8. The claim that the Gamma of a call equals the Gamma of a put for every positive
  spot, strike, time to maturity and volatility does not hold: with volatility \<open>2\<^sup>5\<^sup>1\<^sup>2\<close>
  (spot = strike = 100, maturity 1, rate 0.05) \<^verbatim>\<open>sigma ** 2\<close> raises OverflowError in
  \<open>calculate_greeks\<close>, for the call and for the put, and no Gamma is returned.
\<close>

theorem gamma_overflow:
  "calculate_greeks (Fin 100) (Fin 100) (Fin 1) (Fin 0.05) (Fin (2 ^ 512)) ''call'' = Inl OverflowError \<and>
   calculate_greeks (Fin 100) (Fin 100) (Fin 1) (Fin 0.05) (Fin (2 ^ 512)) ''put'' = Inl OverflowError"
  using calculate_greeks_overflow[OF _ square_overflow_2_512, of "Fin 100"] by simp

text \<open>
  C8, as the code has it. Gamma symmetry: for spot, strike, time to maturity and
  volatility positive, the intermediate values of \<open>d1\<close> inside the range (\<open>d1_in_range\<close>)
  and the products \<open>S \<sigma>\<close> and \<open>S \<sigma> sqrt T\<close> as well, the Greeks of a call and of a put with
  the same parameters have the same, finite, Gamma (also when the density or the quotient
  underflows to zero).
\<close>

theorem gamma_symmetry:
  fixes S K T r sigma :: real
  assumes "0 < S" "0 < K" "0 < T" "0 < sigma"
    and "d1_in_range S K T r sigma"
    and "normal (S * sigma)" "normal (S * sigma * sqrt T)"
  shows "\<exists>g dc tc dp tp.
           calculate_greeks (Fin S) (Fin K) (Fin T) (Fin r) (Fin sigma) ''call'' = Inr (dc, Fin g, tc) \<and>
           calculate_greeks (Fin S) (Fin K) (Fin T) (Fin r) (Fin sigma) ''put'' = Inr (dp, Fin g, tp)"
proof -
  define d1 where "d1 = (ln (S / K) + (r + 0.5 * sigma\<^sup>2) * T) / (sigma * sqrt T)"
  note f = first_line_Fin[OF assms(1-5)]
  have ga: "fmul (Fin S) (Fin sigma) = Fin (S * sigma)"
    by (rule fmul_Fin_nonzero[OF assms(6)])
  have gb: "fmul (Fin (S * sigma)) (Fin (sqrt T)) = Fin (S * sigma * sqrt T)"
    by (rule fmul_Fin_nonzero[OF assms(7)])
  have "0 < S * sigma * sqrt T" using assms(1,3,4) by simp
  then obtain g where g: "fdiv (norm_pdf (Fin d1)) (Fin (S * sigma * sqrt T)) = Fin g"
    using gamma_Fin[OF _ assms(7), of d1] by blast
  have "\<exists>dc tc. calculate_greeks (Fin S) (Fin K) (Fin T) (Fin r) (Fin sigma) option_type = Inr (dc, Fin g, tc)"
    for option_type
    apply (simp only: calculate_greeks_def f(1) f(2) sum.case Let_def)
    apply (simp only: f(3))
    apply (simp only: f(4))
    apply (simp only: d1_def[symmetric] np_sqrt_Fin_pos[OF assms(3)] ga)
    apply (simp only: gb)
    apply (simp only: g)
    apply simp
    done
  from this[of "''call''"] this[of "''put''"] show ?thesis by blast
qed

theorem gamma_symmetry_witness:
  "d1_in_range 100 100 1 0.05 0.2 \<and> normal (100 * 0.2) \<and> normal (100 * 0.2 * sqrt 1) \<and>
   (\<exists>g dc tc dp tp.
     calculate_greeks (Fin 100) (Fin 100) (Fin 1) (Fin 0.05) (Fin 0.2) ''call'' = Inr (dc, Fin g, tc) \<and>
     calculate_greeks (Fin 100) (Fin 100) (Fin 1) (Fin 0.05) (Fin 0.2) ''put'' = Inr (dp, Fin g, tp))"
proof -
  have n: "normal 20" by (rule normal_numeral) simp_all
  show ?thesis
    using gamma_symmetry[of 100 100 1 "0.2" "0.05"] scenario_d1_in_range n
    by simp
qed

text \<open>
  C10. The option type \<^verbatim>\<open>"Put"\<close> is neither \<^verbatim>\<open>"call"\<close> nor \<^verbatim>\<open>"put"\<close>. With it
  \<open>calculate_greeks\<close> returns the Delta of a put but the Theta of a call, which differs
  from the Theta of a put by \<open>r K exp (- r T) = 5 exp (- 0.05)\<close>.
\<close>

theorem greeks_unknown_option_type:
  "calculate_greeks (Fin 100) (Fin 100) (Fin 1) (Fin 0.05) (Fin 0.2) ''Put'' =
     Inr (Fin (std_normal_cdf 0.35 - 1), Fin (std_normal_pdf 0.35 / 20),
          Fin (- (10 * std_normal_pdf 0.35) - 5 * exp (- 0.05) * std_normal_cdf 0.15)) \<and>
   calculate_greeks (Fin 100) (Fin 100) (Fin 1) (Fin 0.05) (Fin 0.2) ''put'' =
     Inr (Fin (std_normal_cdf 0.35 - 1), Fin (std_normal_pdf 0.35 / 20),
          Fin (- (10 * std_normal_pdf 0.35) - 5 * exp (- 0.05) * std_normal_cdf 0.15 + 5 * exp (- 0.05))) \<and>
   calculate_greeks (Fin 100) (Fin 100) (Fin 1) (Fin 0.05) (Fin 0.2) ''call'' =
     Inr (Fin (std_normal_cdf 0.35), Fin (std_normal_pdf 0.35 / 20),
          Fin (- (10 * std_normal_pdf 0.35) - 5 * exp (- 0.05) * std_normal_cdf 0.15)) \<and>
   - (10 * std_normal_pdf 0.35) - 5 * exp (- 0.05) * std_normal_cdf 0.15 \<noteq>
   - (10 * std_normal_pdf 0.35) - 5 * exp (- 0.05) * std_normal_cdf 0.15 + 5 * exp (- 0.05)"
proof -
  have v: "(0::real) < 100" "(0::real) < 1" "(0::real) < 0.2" by simp_all
  have g: "greeks_in_range 100 100 1 0.05 0.2
             ((ln (100 / 100) + (0.05 + 0.5 * 0.2\<^sup>2) * 1) / (0.2 * sqrt 1))
             ((ln (100 / 100) + (0.05 + 0.5 * 0.2\<^sup>2) * 1) / (0.2 * sqrt 1) - 0.2 * sqrt 1)"
    using scenario_greeks_in_range by (simp add: power2_eq_square)
  show ?thesis
    unfolding calculate_greeks_Fin[OF v(1) v(1) v(2) v(3) scenario_d1_in_range g]
    by (simp add: power2_eq_square)
qed

end
